theory Spec2Isabelle
  imports Complex_Main "HOL-Library.AList" "HOL-Library.Sublist"
begin

section \<open>JavaScript strings, arrays and values\<close>

text \<open>
  Strings are modelled as \<open>string\<close>, one \<open>char\<close> per UTF-16 code unit, for code units up to
  U+00FF. The regular expression class \<open>\s\<close> and \<open>String.prototype.trim\<close> use the same set of
  white space and line terminators; its members below U+0100 are TAB, LF, VT, FF, CR, SPACE
  and NO-BREAK SPACE.
\<close>

definition isWhitespace :: "char \<Rightarrow> bool" where
  "isWhitespace c \<longleftrightarrow>
     c \<in> {CHR 0x09, CHR 0x0A, CHR 0x0B, CHR 0x0C, CHR 0x0D, CHR '' '', CHR 0xA0}"

text \<open>The character class \<open>[.!?]\<close>.\<close>

definition isTerminal :: "char \<Rightarrow> bool" where
  "isTerminal c \<longleftrightarrow> c \<in> {CHR ''.'', CHR ''!'', CHR ''?''}"

text \<open>\<open>s.trim()\<close>\<close>

definition trim :: "string \<Rightarrow> string" where
  "trim s = rev (dropWhile isWhitespace (rev (dropWhile isWhitespace s)))"

text \<open>\<open>xs.join(sep)\<close> on an array of strings\<close>

fun join :: "string \<Rightarrow> string list \<Rightarrow> string" where
  "join sep [] = []"
| "join sep [x] = x"
| "join sep (x # y # ys) = x @ sep @ join sep (y # ys)"

text \<open>
  \<open>s.split(/C+/)\<close> for a character class \<open>C\<close>: the pieces between the maximal runs of
  characters of \<open>C\<close>. A run at the start or at the end of \<open>s\<close> leaves an empty piece there, and
  the empty string splits into one empty piece. \<open>acc\<close> is the piece read so far.
\<close>

function splitRuns :: "(char \<Rightarrow> bool) \<Rightarrow> string \<Rightarrow> string \<Rightarrow> string list" where
  "splitRuns sep acc [] = [acc]"
| "splitRuns sep acc (c # cs) =
     (if sep c then acc # splitRuns sep [] (dropWhile sep cs)
      else splitRuns sep (acc @ [c]) cs)"
  by pat_completeness auto
termination
  by (relation "measure (\<lambda>(sep, acc, s). length s)")
     (auto simp: length_dropWhile_le less_Suc_eq_le)

text \<open>
  \<open>s.split(/(?<=[.!?])\s+/)\<close>: a separator is a maximal run of white space that directly
  follows a terminal mark; the mark stays in the piece before the separator.
\<close>

function splitAfterTerminal :: "string \<Rightarrow> string \<Rightarrow> string list" where
  "splitAfterTerminal acc [] = [acc]"
| "splitAfterTerminal acc [c] = [acc @ [c]]"
| "splitAfterTerminal acc (c # d # cs) =
     (if isTerminal c \<and> isWhitespace d
      then (acc @ [c]) # splitAfterTerminal [] (dropWhile isWhitespace cs)
      else splitAfterTerminal (acc @ [c]) (d # cs))"
  by pat_completeness auto
termination
  by (relation "measure (\<lambda>(acc, s). length s)")
     (auto simp: length_dropWhile_le less_Suc_eq_le le_SucI)


text \<open>Decimal digits of a number, as template literals print an array index.\<close>

fun showNat :: "nat \<Rightarrow> string" where
  "showNat n =
     (if n < 10 then [char_of (48 + n)]
      else showNat (n div 10) @ [char_of (48 + n mod 10)])"

text \<open>
  The values that occur as metadata fields and as filter constraints. Numbers that the
  program stores there are array indices and counts, hence integers. \<open>JBuiltin name\<close> is the
  built-in function or object that every plain object inherits under the key \<open>name\<close> from
  \<open>Object.prototype\<close>.
\<close>

datatype jsvalue = JUndefined | JNull | JBool bool | JNum int | JStr string | JBuiltin string

section \<open>Chunker (\<open>backend/utils/chunker.js\<close>)\<close>

definition splitIntoSentences :: "string \<Rightarrow> string list" where
  "splitIntoSentences text =
     filter (\<lambda>sentence. length (trim sentence) > 0) (splitAfterTerminal [] text)"

definition estimateTokens :: "string \<Rightarrow> int" where
  "estimateTokens text =
     (let words = length (splitRuns isWhitespace [] text)
      in \<lceil>real words * 0.75\<rceil>)"

record chunk =
  ctext :: string
  tokenCount :: int
  sentenceCount :: nat
  chunkIndex :: nat

text \<open>
  The block that closes the working chunk, which \<open>chunkText\<close> has twice (in the loop and
  after it): the chunk is pushed when its trimmed text is not empty.
\<close>

definition pushChunk :: "chunk list \<Rightarrow> string list \<Rightarrow> int \<Rightarrow> chunk list" where
  "pushChunk chunks currentChunk currentTokens =
     (let chunkText = trim (join '' '' currentChunk)
      in if length chunkText > 0
         then chunks @ [\<lparr>ctext = chunkText, tokenCount = currentTokens,
                         sentenceCount = length currentChunk, chunkIndex = length chunks\<rparr>]
         else chunks)"

text \<open>
  The inner loop \<open>for (j = currentChunk.length - 1; j >= 0; j--)\<close>. Its first argument is
  \<open>overlapTokens\<close>, its second the sentences still to visit, last one first, then
  \<open>overlapSentences\<close> and \<open>overlapTokenCount\<close>. The \<open>else\<close> branch is the \<open>break\<close>.
\<close>

fun overlapLoop :: "int \<Rightarrow> string list \<Rightarrow> string list \<Rightarrow> int \<Rightarrow> string list \<times> int" where
  "overlapLoop overlapTokens [] overlapSentences overlapTokenCount =
     (overlapSentences, overlapTokenCount)"
| "overlapLoop overlapTokens (overlapSentence # rest) overlapSentences overlapTokenCount =
     (let overlapSentenceTokens = estimateTokens overlapSentence
      in if overlapTokenCount + overlapSentenceTokens \<le> overlapTokens
         then overlapLoop overlapTokens rest (overlapSentence # overlapSentences)
                (overlapTokenCount + overlapSentenceTokens)
         else (overlapSentences, overlapTokenCount))"

text \<open>
  The main loop over the sentences; the state is \<open>(chunks, currentChunk, currentTokens)\<close>.
\<close>

fun chunkLoop :: "int \<Rightarrow> int \<Rightarrow> string list \<Rightarrow> chunk list \<times> string list \<times> int
    \<Rightarrow> chunk list \<times> string list \<times> int" where
  "chunkLoop maxTokens overlapTokens [] st = st"
| "chunkLoop maxTokens overlapTokens (sentence # rest) (chunks, currentChunk, currentTokens) =
     (let sentenceTokens = estimateTokens sentence
      in if currentTokens + sentenceTokens > maxTokens \<and> length currentChunk > 0
         then (case overlapLoop overlapTokens (rev currentChunk) [] 0 of
                 (overlapSentences, overlapTokenCount) \<Rightarrow>
                   chunkLoop maxTokens overlapTokens rest
                     (pushChunk chunks currentChunk currentTokens,
                      overlapSentences @ [sentence],
                      overlapTokenCount + sentenceTokens))
         else chunkLoop maxTokens overlapTokens rest
                (chunks, currentChunk @ [sentence], currentTokens + sentenceTokens))"

definition chunkText :: "string \<Rightarrow> int \<Rightarrow> int \<Rightarrow> chunk list" where
  "chunkText text maxTokens overlapTokens =
     (case chunkLoop maxTokens overlapTokens (splitIntoSentences text) ([], [], 0) of
        (chunks, currentChunk, currentTokens) \<Rightarrow>
          if length currentChunk > 0 then pushChunk chunks currentChunk currentTokens
          else chunks)"

text \<open>
  \<open>addMetadataToChunks\<close>. The object spread \<open>...documentMetadata\<close> comes first, so the four
  computed fields win over equally named keys of the document metadata; the record keeps
  them apart. \<open>now\<close> is the value of \<open>new Date().toISOString()\<close>.
\<close>

record chunkMetadata =
  documentMetadata :: "(string \<times> jsvalue) list"
  md_chunkIndex :: nat
  totalChunks :: nat
  isFirstChunk :: bool
  isLastChunk :: bool

record chunkWithMetadata = chunk +
  chunk_id :: string
  documentId :: string
  metadata :: chunkMetadata
  createdAt :: string

definition addMetadata :: "nat \<Rightarrow> string \<Rightarrow> (string \<times> jsvalue) list \<Rightarrow> string
    \<Rightarrow> nat \<Rightarrow> chunk \<Rightarrow> chunkWithMetadata" where
  "addMetadata n docId docMeta now index c =
     \<lparr>ctext = ctext c, tokenCount = tokenCount c, sentenceCount = sentenceCount c,
      chunkIndex = chunkIndex c,
      chunk_id = docId @ ''_chunk_'' @ showNat index,
      documentId = docId,
      metadata = \<lparr>documentMetadata = docMeta, md_chunkIndex = index, totalChunks = n,
                  isFirstChunk = (index = 0), isLastChunk = (int index = int n - 1)\<rparr>,
      createdAt = now\<rparr>"

definition addMetadataToChunks :: "chunk list \<Rightarrow> string \<Rightarrow> (string \<times> jsvalue) list \<Rightarrow> string
    \<Rightarrow> chunkWithMetadata list" where
  "addMetadataToChunks chunks docId docMeta now =
     map (\<lambda>(index, c). addMetadata (length chunks) docId docMeta now index c)
       (zip [0..<length chunks] chunks)"

section \<open>In-memory vector store (\<open>backend/utils/freeEmbeddingService.js\<close>)\<close>

text \<open>
  The store ranks records by similarity. For the ranking of \<open>query\<close> and the thresholds of
  the chat route, vector components and scores are taken as real numbers and the
  similarity is computed exactly (\<open>cosineSimilarityExact\<close>); the value that the code computes
  in double precision (\<open>cosineSimilarity\<close>) is defined in the section on double precision
  below.

  The metadata object that \<open>generateEmbeddingsForChunks\<close> builds for every stored record.
  Its \<open>wordCount\<close> key is copied from a chunk field that \<open>chunkText\<close> never sets, so it reads
  as \<open>undefined\<close>.
\<close>

record embeddingMetadata =
  em_text :: string
  em_documentId :: string
  em_fileName :: string
  em_fileType :: string
  em_chunkIndex :: nat
  em_totalChunks :: nat
  em_tokenCount :: int
  em_createdAt :: string

record embedding =
  e_id :: string
  e_values :: "real list"
  e_metadata :: embeddingMetadata

text \<open>
  \<open>this.vectors\<close>, a \<open>Map\<close>: an association list in insertion order. \<open>Map.set\<close> is
  \<open>AList.update\<close> (an existing key keeps its place) and \<open>Map.delete\<close> is \<open>AList.delete\<close>.
\<close>

type_synonym vectorStore = "(string \<times> embedding) list"

text \<open>The keys that a plain object inherits from \<open>Object.prototype\<close>.\<close>

definition prototypeKeys :: "string list" where
  "prototypeKeys =
     [''constructor'', ''hasOwnProperty'', ''isPrototypeOf'', ''propertyIsEnumerable'',
      ''toLocaleString'', ''toString'', ''valueOf'', ''__proto__'', ''__defineGetter__'',
      ''__defineSetter__'', ''__lookupGetter__'', ''__lookupSetter__'']"

text \<open>
  \<open>metadata[key]\<close>: an own property of the metadata object, else an inherited property,
  else \<open>undefined\<close>.
\<close>

definition metadataGet :: "embeddingMetadata \<Rightarrow> string \<Rightarrow> jsvalue" where
  "metadataGet md key =
     (if key = ''text'' then JStr (em_text md)
      else if key = ''documentId'' then JStr (em_documentId md)
      else if key = ''fileName'' then JStr (em_fileName md)
      else if key = ''fileType'' then JStr (em_fileType md)
      else if key = ''chunkIndex'' then JNum (int (em_chunkIndex md))
      else if key = ''totalChunks'' then JNum (int (em_totalChunks md))
      else if key = ''tokenCount'' then JNum (em_tokenCount md)
      else if key = ''createdAt'' then JStr (em_createdAt md)
      else if key \<in> set prototypeKeys then JBuiltin key
      else JUndefined)"

text \<open>
  The filter loop of \<open>query\<close> and \<open>deleteMany\<close>: every \<open>[key, value]\<close> entry of the filter
  must satisfy \<open>metadata[key] === value\<close>; the first entry that does not ends the loop.
\<close>

fun passesFilter :: "(string \<times> jsvalue) list \<Rightarrow> embeddingMetadata \<Rightarrow> bool" where
  "passesFilter [] md = True"
| "passesFilter ((key, val) # rest) md =
     (if metadataGet md key \<noteq> val then False else passesFilter rest md)"

definition upsert :: "vectorStore \<Rightarrow> embedding list \<Rightarrow> vectorStore \<times> nat" where
  "upsert vectors embeddings =
     (foldl (\<lambda>vs e. AList.update (e_id e)
                \<lparr>e_id = e_id e, e_values = e_values e, e_metadata = e_metadata e\<rparr> vs)
        vectors embeddings,
      length embeddings)"

text \<open>
  The loop and the body of \<open>cosineSimilarity\<close> with exact arithmetic on real numbers, as
  \<open>query\<close> uses it below; the state of the loop is \<open>(dotProduct, normA, normB)\<close>.
\<close>

fun cosineLoopExact :: "real list \<Rightarrow> real list \<Rightarrow> real \<times> real \<times> real \<Rightarrow> real \<times> real \<times> real" where
  "cosineLoopExact (x # xs) (y # ys) (dotProduct, normA, normB) =
     cosineLoopExact xs ys (dotProduct + x * y, normA + x * x, normB + y * y)"
| "cosineLoopExact xs ys acc = acc"

definition cosineSimilarityExact :: "real list \<Rightarrow> real list \<Rightarrow> real" where
  "cosineSimilarityExact a b =
     (if length a \<noteq> length b then 0
      else case cosineLoopExact a b (0, 0, 0) of
        (dotProduct, normA, normB) \<Rightarrow>
          (let magnitude = sqrt normA * sqrt normB
           in if magnitude > 0 then dotProduct / magnitude else 0))"



record indexStats =
  totalVectorCount :: nat
  dimension :: nat
  indexFullness :: nat

definition describeIndexStats :: "vectorStore \<Rightarrow> indexStats" where
  "describeIndexStats vectors =
     \<lparr>totalVectorCount = length vectors, dimension = 1536, indexFullness = 0\<rparr>"

text \<open>
  The argument of \<open>deleteMany\<close>. The method reads its \<open>filter\<close> key only, as
  \<open>filter.filter || {}\<close>; a \<open>deleteAll\<close> key, which \<open>clearAllEmbeddings\<close> passes, is never read.
\<close>

record deleteArg =
  da_filter :: "(string \<times> jsvalue) list option"
  da_deleteAll :: "bool option"

text \<open>
  \<open>deleteMany\<close> walks the entries of the map and deletes from the map as it goes; an entry
  deleted during the walk is the one being visited, so the walk sees every entry that the
  map had at the start. The state is \<open>(this.vectors, deletedCount)\<close>.
\<close>

definition deleteMany :: "vectorStore \<Rightarrow> deleteArg \<Rightarrow> vectorStore \<times> nat" where
  "deleteMany vectors arg =
     (let flt = (case da_filter arg of None \<Rightarrow> [] | Some f \<Rightarrow> f)
      in foldl (\<lambda>(vs, deletedCount) (i, v).
                  if passesFilter flt (e_metadata v)
                  then (AList.delete i vs, deletedCount + 1)
                  else (vs, deletedCount))
           (vectors, 0) vectors)"

section \<open>Cosine similarity in double precision\<close>

text \<open>
  The numbers of the code are IEEE 754 binary64 values. A finite value is given by its sign
  (\<open>True\<close> for negative) and its magnitude, so that \<open>-0\<close> and \<open>+0\<close> differ; a value that an
  operation returns has a magnitude that binary64 represents.
\<close>

datatype double = NaN | Infinity bool | Finite bool rat

definition positiveZero :: double where
  "positiveZero = Finite False 0"

definition isZero :: "double \<Rightarrow> bool" where
  "isZero x \<longleftrightarrow> (case x of Finite s m \<Rightarrow> m = 0 | _ \<Rightarrow> False)"

text \<open>The number of binary digits of a positive integer.\<close>

function bitLength :: "int \<Rightarrow> int" where
  "bitLength n = (if n \<le> 0 then 0 else 1 + bitLength (n div 2))"
  by pat_completeness auto
termination
  by (relation "measure nat") auto

definition pow2 :: "int \<Rightarrow> rat" where
  "pow2 e = (if 0 \<le> e then 2 ^ nat e else 1 / 2 ^ nat (- e))"

text \<open>The binary exponent of a positive rational \<open>x\<close>: the \<open>e\<close> with \<open>2^e \<le> x < 2^(e+1)\<close>.\<close>

definition floorLog2 :: "rat \<Rightarrow> int" where
  "floorLog2 x =
     (if 1 \<le> x then bitLength \<lfloor>x\<rfloor> - 1
      else - bitLength (\<lceil>1 / x\<rceil> - 1))"

text \<open>The integer nearest to \<open>n\<close>, the even one of two that are equally near.\<close>

definition nearestEven :: "rat \<Rightarrow> int" where
  "nearestEven n =
     (let f = \<lfloor>n\<rfloor>; r = n - of_int f
      in if r < 1 / 2 then f else if r > 1 / 2 then f + 1 else if even f then f else f + 1)"

text \<open>
  Rounding of an exact magnitude \<open>x\<close> to binary64, to nearest and ties to even: 53
  significant bits for normal numbers, multiples of \<open>2^-1074\<close> below \<open>2^-1022\<close>, and infinity
  when the rounded magnitude reaches \<open>2^1024\<close>. A result of 0 keeps the sign.
\<close>

definition roundToDouble :: "bool \<Rightarrow> rat \<Rightarrow> double" where
  "roundToDouble neg x =
     (if x = 0 then Finite neg 0
      else let e = max (floorLog2 x) (- 1022);
               ulp = pow2 (e - 52);
               y = of_int (nearestEven (x / ulp)) * ulp
           in if y \<ge> pow2 1024 then Infinity neg else Finite neg y)"

text \<open>The integer square root \<open>\<lfloor>\<surd>n\<rfloor>\<close>, by bisection between \<open>lo\<close> and \<open>hi\<close>.\<close>

function sqrtSearch :: "int \<Rightarrow> int \<Rightarrow> int \<Rightarrow> int" where
  "sqrtSearch n lo hi =
     (if hi \<le> lo + 1 then lo
      else let mid = (lo + hi) div 2
           in if mid * mid \<le> n then sqrtSearch n mid hi else sqrtSearch n lo mid)"
  by pat_completeness auto
termination
  by (relation "measure (\<lambda>(n, lo, hi). nat (hi - lo))") auto

definition floorSqrt :: "int \<Rightarrow> int" where
  "floorSqrt n = sqrtSearch n 0 (n + 1)"

text \<open>
  The square root of a positive magnitude \<open>x\<close>, rounded to nearest as \<open>Math.sqrt\<close> of the
  engines does: with \<open>ulp\<close> the spacing of binary64 at the root and \<open>t = x / ulp\<^sup>2\<close>, the root is
  \<open>\<surd>t\<close> spacings long, \<open>f = \<lfloor>\<surd>t\<rfloor>\<close>, and the comparison of \<open>t\<close> with \<open>(f + 1/2)\<^sup>2\<close> decides
  between \<open>f\<close> and \<open>f + 1\<close>. The root of a binary64 number neither overflows nor is subnormal.
\<close>

definition sqrtToDouble :: "rat \<Rightarrow> double" where
  "sqrtToDouble x =
     (let e = floorLog2 x div 2;
          ulp = pow2 (e - 52);
          t = x / (ulp * ulp);
          f = floorSqrt \<lfloor>t\<rfloor>;
          h = (of_int f + 1 / 2) * (of_int f + 1 / 2);
          m = (if t < h then f else if t > h then f + 1 else if even f then f else f + 1)
      in Finite False (of_int m * ulp))"

text \<open>\<open>x * y\<close>\<close>

fun fmul :: "double \<Rightarrow> double \<Rightarrow> double" where
  "fmul (Finite s m) (Finite t n) = roundToDouble (s \<noteq> t) (m * n)"
| "fmul (Finite s m) (Infinity t) = (if m = 0 then NaN else Infinity (s \<noteq> t))"
| "fmul (Infinity s) (Finite t n) = (if n = 0 then NaN else Infinity (s \<noteq> t))"
| "fmul (Infinity s) (Infinity t) = Infinity (s \<noteq> t)"
| "fmul NaN y = NaN"
| "fmul x NaN = NaN"

definition signed :: "bool \<Rightarrow> rat \<Rightarrow> rat" where
  "signed neg m = (if neg then - m else m)"

text \<open>\<open>x + y\<close>; an exact sum of 0 is \<open>-0\<close> only when both operands are negative.\<close>

fun fadd :: "double \<Rightarrow> double \<Rightarrow> double" where
  "fadd (Finite s m) (Finite t n) =
     (let v = signed s m + signed t n
      in if v = 0 then Finite (s \<and> t) 0 else roundToDouble (v < 0) \<bar>v\<bar>)"
| "fadd (Finite s m) (Infinity t) = Infinity t"
| "fadd (Infinity s) (Finite t n) = Infinity s"
| "fadd (Infinity s) (Infinity t) = (if s = t then Infinity s else NaN)"
| "fadd NaN y = NaN"
| "fadd x NaN = NaN"

text \<open>\<open>Math.sqrt(x)\<close>\<close>

fun fsqrt :: "double \<Rightarrow> double" where
  "fsqrt (Finite s m) = (if m = 0 then Finite s 0 else if s then NaN else sqrtToDouble m)"
| "fsqrt (Infinity s) = (if s then NaN else Infinity False)"
| "fsqrt NaN = NaN"

text \<open>\<open>x / y\<close>\<close>

fun fdiv :: "double \<Rightarrow> double \<Rightarrow> double" where
  "fdiv (Finite s m) (Finite t n) =
     (if n = 0 then (if m = 0 then NaN else Infinity (s \<noteq> t))
      else roundToDouble (s \<noteq> t) (m / n))"
| "fdiv (Finite s m) (Infinity t) = Finite (s \<noteq> t) 0"
| "fdiv (Infinity s) (Finite t n) = Infinity (s \<noteq> t)"
| "fdiv (Infinity s) (Infinity t) = NaN"
| "fdiv NaN y = NaN"
| "fdiv x NaN = NaN"

text \<open>\<open>x > 0\<close>\<close>

fun greaterThanZero :: "double \<Rightarrow> bool" where
  "greaterThanZero (Finite s m) = (\<not> s \<and> m > 0)"
| "greaterThanZero (Infinity s) = (\<not> s)"
| "greaterThanZero NaN = False"

text \<open>
  \<open>cosineSimilarity\<close> on arrays of numbers, with the arithmetic of the code: the loop adds
  the rounded products to the three sums from left to right; the state of the loop is
  \<open>(dotProduct, normA, normB)\<close>.
\<close>

fun cosineLoop :: "double list \<Rightarrow> double list \<Rightarrow> double \<times> double \<times> double
    \<Rightarrow> double \<times> double \<times> double" where
  "cosineLoop (x # xs) (y # ys) (dotProduct, normA, normB) =
     cosineLoop xs ys
       (fadd dotProduct (fmul x y), fadd normA (fmul x x), fadd normB (fmul y y))"
| "cosineLoop xs ys acc = acc"

definition cosineSimilarity :: "double list \<Rightarrow> double list \<Rightarrow> double" where
  "cosineSimilarity a b =
     (if length a \<noteq> length b then positiveZero
      else case cosineLoop a b (positiveZero, positiveZero, positiveZero) of
        (dotProduct, normA, normB) \<Rightarrow>
          (let magnitude = fmul (fsqrt normA) (fsqrt normB)
           in if greaterThanZero magnitude then fdiv dotProduct magnitude
              else positiveZero))"

text \<open>The sum that a loop \<open>s += x\<close> computes from 0.\<close>

definition fsum :: "double list \<Rightarrow> double" where
  "fsum xs = foldl fadd positiveZero xs"

section \<open>Development embedding service\<close>




record deletionResult =
  dr_success :: bool
  dr_deletedCount :: nat
  dr_documentId :: string
  statsBefore :: indexStats
  statsAfter :: indexStats

text \<open>
  \<open>deleteDocumentEmbeddings\<close>: the new store and either the message of the error it throws
  or its result. The store operations it calls do not raise on the records above, and the
  helper \<open>getAvailableDocumentIds\<close>, called for a count of 0, only logs and catches its own
  errors; hence the \<open>catch\<close> branch, which rethrows, is not taken.
\<close>

definition deleteDocumentEmbeddings :: "vectorStore \<Rightarrow> string
    \<Rightarrow> vectorStore \<times> (string + deletionResult)" where
  "deleteDocumentEmbeddings vectors docId =
     (let before = describeIndexStats vectors;
          (vectors', deletedCount) =
             deleteMany vectors
               \<lparr>da_filter = Some [(''documentId'', JStr docId)], da_deleteAll = None\<rparr>;
          after = describeIndexStats vectors'
      in (vectors',
          Inr \<lparr>dr_success = True, dr_deletedCount = deletedCount, dr_documentId = docId,
               statsBefore = before, statsAfter = after\<rparr>))"

text \<open>
  \<open>clearAllEmbeddings\<close> reports \<open>result.deletedCount || "all"\<close>: the count, or the word for
  a count of 0.
\<close>

datatype clearedCount = Count nat | All

definition clearAllEmbeddings :: "vectorStore \<Rightarrow> vectorStore \<times> clearedCount \<times> indexStats \<times> indexStats" where
  "clearAllEmbeddings vectors =
     (let before = describeIndexStats vectors;
          (vectors', deletedCount) =
             deleteMany vectors \<lparr>da_filter = None, da_deleteAll = Some True\<rparr>;
          after = describeIndexStats vectors'
      in (vectors', (if deletedCount = 0 then All else Count deletedCount), before, after))"

section \<open>Answer synthesis (\<open>backend/api/process.js\<close>)\<close>



















record contextChunk =
  cc_id :: string
  cc_text :: string
  cc_source :: string
  cc_chunkIndex :: nat
  similarity :: real

text \<open>
  The constant \<open>sentences\<close> of \<open>generateContextualResponse\<close>: the candidate sentences for the
  answer.
\<close>

definition candidateSentences :: "contextChunk list \<Rightarrow> string list" where
  "candidateSentences contextChunks =
     (let combinedContext = join '' '' (map cc_text contextChunks)
      in take 15 (filter (\<lambda>s. length s > 20)
                    (map trim (splitRuns isTerminal [] combinedContext))))"


section \<open>Processing routes (\<open>backend/api/process.js\<close>)\<close>

text \<open>The values \<open>"processing"\<close>, \<open>"completed"\<close> and \<open>"error"\<close> of a job's \<open>status\<close>.\<close>

datatype status = Processing | Completed | Failed

text \<open>
  An entry of \<open>processedDocuments\<close>. The fields after \<open>progress\<close> are absent from a job that
  has just been registered. The statistics that the background task stores in a completed
  job are read by none of the routes below and are left out.
\<close>

record job =
  j_documentId :: string
  j_fileName :: string
  j_fileType :: string
  j_s3Key :: string
  j_status :: status
  startedAt :: string
  progress :: string
  progressDetails :: "string option"
  completedAt :: "string option"
  j_error :: "string option"
  errorAt :: "string option"

text \<open>
  The module state: the two maps of \<open>process.js\<close> and the map of the embedding service's
  vector store, each an association list in insertion order.
\<close>

record serverState =
  processedDocuments :: "(string \<times> job) list"
  documentChunks :: "(string \<times> chunkWithMetadata list) list"
  vectors :: vectorStore

text \<open>
  A body field that is a string when present; \<open>!field\<close> holds for a missing field and for
  the empty string.
\<close>

definition falsy :: "string option \<Rightarrow> bool" where
  "falsy v \<longleftrightarrow> (case v of None \<Rightarrow> True | Some s \<Rightarrow> s = [])"

record processBody =
  pb_fileName :: "string option"
  pb_fileType :: "string option"
  pb_s3Key :: "string option"

datatype processReply =
    ProcessError string
  | ProcessConflict string job
  | ProcessStarted string job

record backgroundTask =
  bt_documentId :: string
  bt_fileName :: string
  bt_fileType :: string
  bt_s3Key :: string

text \<open>
  \<open>router.post("/:documentId")\<close>: the HTTP status with the reply, the new state, and the
  call of \<open>processDocumentInBackground\<close> that the handler makes, without awaiting it, after
  it has sent the reply. \<open>now\<close> is \<open>new Date().toISOString()\<close>. Nothing in the \<open>try\<close> block
  raises on a parsed body, so the \<open>catch\<close> block is not taken.
\<close>

definition postDocument :: "serverState \<Rightarrow> string \<Rightarrow> processBody \<Rightarrow> string
    \<Rightarrow> (nat \<times> processReply) \<times> serverState \<times> backgroundTask option" where
  "postDocument st docId body now =
     (if falsy (pb_fileName body) \<or> falsy (pb_fileType body) \<or> falsy (pb_s3Key body)
      then ((400, ProcessError ''Missing required fields: fileName, fileType, s3Key''), st, None)
      else
        let fileName = the (pb_fileName body);
            fileType = the (pb_fileType body);
            s3Key = the (pb_s3Key body);
            existingDoc = map_of (processedDocuments st) docId
        in if (case existingDoc of None \<Rightarrow> False | Some d \<Rightarrow> j_status d = Processing)
           then ((409, ProcessConflict ''Document is already being processed'' (the existingDoc)),
                 st, None)
           else
             let processingDoc =
                   \<lparr>j_documentId = docId, j_fileName = fileName, j_fileType = fileType,
                    j_s3Key = s3Key, j_status = Processing, startedAt = now,
                    progress = ''Initializing...'', progressDetails = None,
                    completedAt = None, j_error = None, errorAt = None\<rparr>
             in ((200, ProcessStarted ''Document processing started'' processingDoc),
                 st\<lparr>processedDocuments :=
                      AList.update docId processingDoc (processedDocuments st)\<rparr>,
                 Some \<lparr>bt_documentId = docId, bt_fileName = fileName,
                       bt_fileType = fileType, bt_s3Key = s3Key\<rparr>))"

record storageCleared =
  sc_processedDocuments :: bool
  sc_documentChunks :: bool
  sc_embeddings :: bool

record deletionSummary =
  ds_message :: string
  ds_documentId :: string
  ds_fileName :: string
  ds_storageCleared :: storageCleared
  remainingDocs :: nat
  remainingChunks :: nat

text \<open>
  \<open>router.delete("/:documentId")\<close>. \<open>embeddingsCleared\<close> is set when
  \<open>deleteDocumentEmbeddings\<close> returns, whatever it deleted, and stays false when it throws.
\<close>

definition deleteDocument :: "serverState \<Rightarrow> string \<Rightarrow> (nat \<times> deletionSummary) \<times> serverState" where
  "deleteDocument st docId =
     (let processedDoc = map_of (processedDocuments st) docId;
          fileName = (case processedDoc of
                        None \<Rightarrow> ''Unknown Document''
                      | Some d \<Rightarrow> if j_fileName d = [] then ''Unknown Document''
                                  else j_fileName d);
          hadProcessedDoc = (processedDoc \<noteq> None);
          processedDocuments' = AList.delete docId (processedDocuments st);
          hadChunks = (map_of (documentChunks st) docId \<noteq> None);
          documentChunks' = AList.delete docId (documentChunks st);
          (vectors', outcome) = deleteDocumentEmbeddings (vectors st) docId;
          embeddingsCleared = (case outcome of Inl err \<Rightarrow> False | Inr r \<Rightarrow> True)
      in ((200,
           \<lparr>ds_message = ''Document deletion completed'', ds_documentId = docId,
            ds_fileName = fileName,
            ds_storageCleared =
              \<lparr>sc_processedDocuments = hadProcessedDoc, sc_documentChunks = hadChunks,
               sc_embeddings = embeddingsCleared\<rparr>,
            remainingDocs = length processedDocuments',
            remainingChunks = length documentChunks'\<rparr>),
          \<lparr>processedDocuments = processedDocuments', documentChunks = documentChunks',
           vectors = vectors'\<rparr>))"









section \<open>Notions of the specification\<close>

text \<open>
  The word count in the specification's sense: the number of white-space separated words,
  which is the number of non-empty pieces between runs of white space; and the token
  estimate that the specification derives from it.
\<close>

definition wordCount_spec :: "string \<Rightarrow> nat" where
  "wordCount_spec s = length (filter (\<lambda>w. w \<noteq> []) (splitRuns isWhitespace [] s))"

definition estimateTokens_spec :: "string \<Rightarrow> int" where
  "estimateTokens_spec s = \<lceil>real (wordCount_spec s) * 0.75\<rceil>"

text \<open>
  The loop of \<open>chunkText\<close> once more, recording for every chunk it pushes the sentence units
  of the chunk, together with the overlap sentences that seeded it. The state is
  \<open>(units, carried, currentChunk, currentTokens)\<close>, where \<open>carried\<close> is the value of
  \<open>overlapSentences\<close> with which \<open>currentChunk\<close> was started, empty for the first chunk.
\<close>

definition pushUnits :: "(string list \<times> string list) list \<Rightarrow> string list \<Rightarrow> string list
    \<Rightarrow> (string list \<times> string list) list" where
  "pushUnits units carried currentChunk =
     (if length (trim (join '' '' currentChunk)) > 0 then units @ [(carried, currentChunk)]
      else units)"

fun chunkLoopUnits :: "int \<Rightarrow> int \<Rightarrow> string list
    \<Rightarrow> (string list \<times> string list) list \<times> string list \<times> string list \<times> int
    \<Rightarrow> (string list \<times> string list) list \<times> string list \<times> string list \<times> int" where
  "chunkLoopUnits maxTokens overlapTokens [] st = st"
| "chunkLoopUnits maxTokens overlapTokens (sentence # rest)
       (units, carried, currentChunk, currentTokens) =
     (let sentenceTokens = estimateTokens sentence
      in if currentTokens + sentenceTokens > maxTokens \<and> length currentChunk > 0
         then (case overlapLoop overlapTokens (rev currentChunk) [] 0 of
                 (overlapSentences, overlapTokenCount) \<Rightarrow>
                   chunkLoopUnits maxTokens overlapTokens rest
                     (pushUnits units carried currentChunk,
                      overlapSentences,
                      overlapSentences @ [sentence],
                      overlapTokenCount + sentenceTokens))
         else chunkLoopUnits maxTokens overlapTokens rest
                (units, carried, currentChunk @ [sentence], currentTokens + sentenceTokens))"

definition chunkUnits :: "string \<Rightarrow> int \<Rightarrow> int \<Rightarrow> (string list \<times> string list) list" where
  "chunkUnits text maxTokens overlapTokens =
     (case chunkLoopUnits maxTokens overlapTokens (splitIntoSentences text) ([], [], [], 0) of
        (units, carried, currentChunk, currentTokens) \<Rightarrow>
          if length currentChunk > 0 then pushUnits units carried currentChunk else units)"

text \<open>The chunk that \<open>chunkText\<close> makes of the sentence units \<open>u\<close> as its chunk number \<open>i\<close>.\<close>

definition chunkOfUnits :: "nat \<Rightarrow> string list \<Rightarrow> chunk" where
  "chunkOfUnits i u =
     \<lparr>ctext = trim (join '' '' u), tokenCount = sum_list (map estimateTokens u),
      sentenceCount = length u, chunkIndex = i\<rparr>"

text \<open>Dot product and Euclidean norm of vectors, as the specification uses them.\<close>

definition dot :: "real list \<Rightarrow> real list \<Rightarrow> real" where
  "dot a b = (\<Sum>i<length a. a ! i * b ! i)"

definition vnorm :: "real list \<Rightarrow> real" where
  "vnorm a = sqrt (\<Sum>i<length a. (a ! i)\<^sup>2)"






text \<open>
  The candidate sentences as the specification describes them: the sentences of the
  chunker's rule, those of 20 or more characters, the first 15 of these.
\<close>

definition candidateSentences_spec :: "contextChunk list \<Rightarrow> string list" where
  "candidateSentences_spec contextChunks =
     take 15 (filter (\<lambda>s. length s \<ge> 20)
                (splitIntoSentences (join '' '' (map cc_text contextChunks))))"

section \<open>Auxiliary notions and invariants\<close>



text \<open>
  The overlap condition between a chunk with sentence units \<open>earlier\<close> and the next chunk,
  given as the pair of its overlap sentences and its sentence units: the overlap ends the
  earlier chunk, starts the later one before at least one new unit, and its estimated
  tokens stay within \<open>overlapTokens\<close>, unless nothing is carried because already the last
  unit of the earlier chunk exceeds \<open>overlapTokens\<close>.
\<close>

definition overlapLink :: "int \<Rightarrow> string list \<Rightarrow> string list \<times> string list \<Rightarrow> bool" where
  "overlapLink overlapTokens earlier entry \<longleftrightarrow>
     suffix (fst entry) earlier \<and> strict_prefix (fst entry) (snd entry) \<and>
     (sum_list (map estimateTokens (fst entry)) \<le> overlapTokens \<or>
      (fst entry = [] \<and> overlapTokens < estimateTokens (last earlier)))"

text \<open>The chunks of recorded sentence units, numbered in order.\<close>

definition chunksOfUnits :: "(string list \<times> string list) list \<Rightarrow> chunk list" where
  "chunksOfUnits units =
     map (\<lambda>(i, entry). chunkOfUnits i (snd entry)) (zip [0..<length units] units)"

text \<open>The overlap condition between all consecutive entries.\<close>

definition overlapTrace :: "int \<Rightarrow> (string list \<times> string list) list \<Rightarrow> bool" where
  "overlapTrace overlapTokens units \<longleftrightarrow>
     (\<forall>i. Suc i < length units \<longrightarrow>
          overlapLink overlapTokens (snd (units ! i)) (units ! Suc i))"

text \<open>The invariant of the recording loop, for sentences that are not blank.\<close>

definition traceInv :: "int \<Rightarrow> (string list \<times> string list) list \<Rightarrow> string list \<Rightarrow> string list \<Rightarrow> bool" where
  "traceInv ot units carried cur \<longleftrightarrow>
     overlapTrace ot units \<and> (\<forall>s \<in> set cur. trim s \<noteq> []) \<and>
     (if units = [] then carried = [] else overlapLink ot (snd (last units)) (carried, cur))"

section \<open>Example inputs\<close>

definition exampleMetadata :: "string \<Rightarrow> string \<Rightarrow> nat \<Rightarrow> string \<Rightarrow> embeddingMetadata" where
  "exampleMetadata docId fileName i txt =
     \<lparr>em_text = txt, em_documentId = docId, em_fileName = fileName,
      em_fileType = ''text/plain'', em_chunkIndex = i, em_totalChunks = 2, em_tokenCount = 3,
      em_createdAt = ''2024-01-01T00:00:00.000Z''\<rparr>"

definition exampleStore :: vectorStore where
  "exampleStore =
     [(''doc1_chunk_0'',
       \<lparr>e_id = ''doc1_chunk_0'', e_values = [1, 0],
        e_metadata = exampleMetadata ''doc1'' ''notes.txt'' 0 ''The first chunk of the notes''\<rparr>),
      (''doc1_chunk_1'',
       \<lparr>e_id = ''doc1_chunk_1'', e_values = [1, 0],
        e_metadata = exampleMetadata ''doc1'' ''notes.txt'' 1 ''The second chunk of the notes''\<rparr>)]"

definition exampleJob :: "status \<Rightarrow> job" where
  "exampleJob s =
     \<lparr>j_documentId = ''doc1'', j_fileName = ''notes.txt'', j_fileType = ''text/plain'',
      j_s3Key = ''documents/1-notes.txt'', j_status = s,
      startedAt = ''2024-01-01T00:00:00.000Z'', progress = ''Initializing...'',
      progressDetails = None, completedAt = None, j_error = None, errorAt = None\<rparr>"

definition exampleState :: "status \<Rightarrow> serverState" where
  "exampleState s =
     \<lparr>processedDocuments = [(''doc1'', exampleJob s)], documentChunks = [],
      vectors = exampleStore\<rparr>"

definition exampleBody :: processBody where
  "exampleBody = \<lparr>pb_fileName = Some ''notes.txt'', pb_fileType = Some ''text/plain'',
                   pb_s3Key = Some ''documents/1-notes.txt''\<rparr>"






text \<open>The numbers 1 and \<open>2^600\<close> as binary64 values.\<close>

definition doubleOne :: double where
  "doubleOne = Finite False 1"

definition hugeDouble :: double where
  "hugeDouble = Finite False (2 ^ 600)"

text \<open>The context of a chat answer made of one retrieved chunk with the given text.\<close>

definition exampleContext :: "string \<Rightarrow> contextChunk list" where
  "exampleContext txt =
     [\<lparr>cc_id = ''doc1_chunk_0'', cc_text = txt, cc_source = ''notes.txt'', cc_chunkIndex = 0,
       similarity = 1\<rparr>]"

section \<open>Properties of the chunker\<close>

lemma estimateTokens_div:
  "estimateTokens s = (3 * int (length (splitRuns isWhitespace [] s)) + 3) div 4"
proof -
  define n where "n = int (length (splitRuns isWhitespace [] s))"
  define m where "m = (3 * n + 3) div 4"
  have "4 * m \<le> 3 * n + 3" and "3 * n \<le> 4 * m"
    unfolding m_def by presburger+
  then have "real_of_int (4 * m) \<le> real_of_int (3 * n + 3)"
    and "real_of_int (3 * n) \<le> real_of_int (4 * m)"
    by (simp_all only: of_int_le_iff)
  then have "real_of_int m - 1 < real_of_int n * 0.75" and "real_of_int n * 0.75 \<le> real_of_int m"
    by simp_all
  then have "\<lceil>real_of_int n * 0.75\<rceil> = m"
    by (rule ceiling_unique)
  then show ?thesis
    by (simp add: estimateTokens_def n_def m_def)
qed

lemma pushChunk_indices:
  "map chunkIndex chunks = [0..<length chunks]
   \<Longrightarrow> map chunkIndex (pushChunk chunks cur toks) = [0..<length (pushChunk chunks cur toks)]"
  by (simp add: pushChunk_def Let_def)

lemma chunkLoop_indices:
  "map chunkIndex chunks = [0..<length chunks]
   \<Longrightarrow> chunkLoop mt ot ss (chunks, cur, toks) = (chunks', cur', toks')
   \<Longrightarrow> map chunkIndex chunks' = [0..<length chunks']"
proof (induction ss arbitrary: chunks cur toks)
  case Nil
  then show ?case by simp
next
  case (Cons s ss)
  show ?case
  proof (cases "toks + estimateTokens s > mt \<and> length cur > 0")
    case True
    obtain ov ovc where ov: "overlapLoop ot (rev cur) [] 0 = (ov, ovc)"
      by (cases "overlapLoop ot (rev cur) [] 0")
    from Cons.prems(2) True ov
    have "chunkLoop mt ot ss (pushChunk chunks cur toks, ov @ [s], ovc + estimateTokens s)
            = (chunks', cur', toks')"
      by (simp add: Let_def)
    with Cons.IH [OF pushChunk_indices [OF Cons.prems(1)]] show ?thesis .
  next
    case False
    with Cons.prems(2)
    have "chunkLoop mt ot ss (chunks, cur @ [s], toks + estimateTokens s) = (chunks', cur', toks')"
      by (auto simp: Let_def)
    with Cons.IH [OF Cons.prems(1)] show ?thesis .
  qed
qed

lemma chunkText_indices:
  "map chunkIndex (chunkText text mt ot) = [0..<length (chunkText text mt ot)]"
proof -
  obtain chunks cur toks
    where loop: "chunkLoop mt ot (splitIntoSentences text) ([], [], 0) = (chunks, cur, toks)"
    by (cases "chunkLoop mt ot (splitIntoSentences text) ([], [], 0)")
  have "map chunkIndex chunks = [0..<length chunks]"
    by (rule chunkLoop_indices [OF _ loop]) simp
  then show ?thesis
    using pushChunk_indices [of chunks cur toks]
    by (simp add: chunkText_def loop)
qed

lemma length_addMetadataToChunks [simp]:
  "length (addMetadataToChunks chunks docId docMeta now) = length chunks"
  by (simp add: addMetadataToChunks_def)

lemma nth_addMetadataToChunks:
  "i < length chunks \<Longrightarrow>
   addMetadataToChunks chunks docId docMeta now ! i
     = addMetadata (length chunks) docId docMeta now i (chunks ! i)"
  by (simp add: addMetadataToChunks_def)

text \<open>
  Claim C5. For every input text, the chunks that \<open>chunkText\<close> followed by
  \<open>addMetadataToChunks\<close> produces carry the chunk indices \<open>0, \<dots>, n - 1\<close> in the order of
  emission, both in \<open>chunkIndex\<close> and in the metadata; the metadata of every chunk has
  \<open>totalChunks = n\<close>, \<open>isFirstChunk\<close> is true exactly at index 0 and \<open>isLastChunk\<close> exactly at
  index \<open>n - 1\<close>.
\<close>

theorem chunk_indexing:
  "let cs = addMetadataToChunks (chunkText text maxTokens overlapTokens) docId docMeta now;
       n = length cs
   in n = length (chunkText text maxTokens overlapTokens) \<and>
      map chunkIndex cs = [0..<n] \<and>
      map (md_chunkIndex \<circ> metadata) cs = [0..<n] \<and>
      map (totalChunks \<circ> metadata) cs = replicate n n \<and>
      map (isFirstChunk \<circ> metadata) cs = map (\<lambda>i. i = 0) [0..<n] \<and>
      map (isLastChunk \<circ> metadata) cs = map (\<lambda>i. i = n - 1) [0..<n]"
proof -
  define chunks where "chunks = chunkText text maxTokens overlapTokens"
  define cs where "cs = addMetadataToChunks chunks docId docMeta now"
  have len: "length cs = length chunks" by (simp add: cs_def)
  have nth: "cs ! i = addMetadata (length chunks) docId docMeta now i (chunks ! i)"
    if "i < length chunks" for i
    using that by (simp add: cs_def nth_addMetadataToChunks)
  have idx: "chunkIndex (chunks ! i) = i" if "i < length chunks" for i
  proof -
    have "map chunkIndex chunks ! i = [0..<length chunks] ! i"
      using chunkText_indices [of "text" maxTokens overlapTokens] by (simp add: chunks_def)
    with that show ?thesis by simp
  qed
  have 1: "map chunkIndex cs = [0..<length cs]"
    by (rule nth_equalityI) (simp_all add: len nth idx addMetadata_def)
  have 2: "map (md_chunkIndex \<circ> metadata) cs = [0..<length cs]"
    by (rule nth_equalityI) (simp_all add: len nth addMetadata_def)
  have 3: "map (totalChunks \<circ> metadata) cs = replicate (length cs) (length cs)"
    by (rule nth_equalityI) (simp_all add: len nth addMetadata_def)
  have 4: "map (isFirstChunk \<circ> metadata) cs = map (\<lambda>i. i = 0) [0..<length cs]"
    by (rule nth_equalityI) (simp_all add: len nth addMetadata_def)
  have 5: "map (isLastChunk \<circ> metadata) cs = map (\<lambda>i. i = length cs - 1) [0..<length cs]"
    by (rule nth_equalityI) (auto simp add: len nth addMetadata_def)
  from len 1 2 3 4 5 show ?thesis
    unfolding Let_def cs_def chunks_def by blast
qed

text \<open>
  Claim C8. The specification counts the white-space separated words of a string, so that
  the empty string has no word and is estimated at 0 tokens. \<open>estimateTokens\<close> counts the
  pieces of \<open>split(/\s+/)\<close> instead, empty ones included: the empty string is estimated at
  1 token, and a sentence with leading white space at one word more than it has.
\<close>

theorem estimateTokens_empty_string:
  "estimateTokens [] = 1 \<and> estimateTokens_spec [] = 0 \<and>
   estimateTokens '' Hello world.'' = 3 \<and> estimateTokens_spec '' Hello world.'' = 2"
  by (simp add: estimateTokens_def estimateTokens_spec_def wordCount_spec_def isWhitespace_def)

section \<open>Properties of the vector store and of the routes\<close>

lemma deleteMany_foldl:
  "foldl (\<lambda>(vs, deletedCount) (i, v).
            if P v then (AList.delete i vs, deletedCount + 1) else (vs, deletedCount))
     (vs, n) es
   = (filter (\<lambda>p. fst p \<notin> fst ` {e \<in> set es. P (snd e)}) vs,
      n + length (filter (\<lambda>e. P (snd e)) es))"
proof (induction es arbitrary: vs n)
  case Nil
  then show ?case by simp
next
  case (Cons e es)
  obtain i v where e: "e = (i, v)" by (cases e)
  show ?case
  proof (cases "P v")
    case True
    have S: "{e' \<in> set (e # es). P (snd e')} = insert (i, v) {e \<in> set es. P (snd e)}"
      using True by (auto simp: e)
    have "filter (\<lambda>p. fst p \<notin> fst ` {e \<in> set es. P (snd e)}) (AList.delete i vs)
          = filter (\<lambda>p. fst p \<notin> fst ` {e' \<in> set (e # es). P (snd e')}) vs"
      unfolding AList.delete_eq filter_filter S
      by (rule filter_cong) auto
    with True show ?thesis by (simp add: Cons.IH e)
  next
    case False
    have "{e' \<in> set (e # es). P (snd e')} = {e \<in> set es. P (snd e)}"
      using False by (auto simp: e)
    with False show ?thesis by (simp add: Cons.IH e)
  qed
qed

lemma deleteMany_eq:
  "(case da_filter arg of None \<Rightarrow> [] | Some f \<Rightarrow> f) = flt \<Longrightarrow>
   deleteMany vs arg =
     (filter (\<lambda>p. fst p \<notin> fst ` {e \<in> set vs. passesFilter flt (e_metadata (snd e))}) vs,
      length (filter (\<lambda>e. passesFilter flt (e_metadata (snd e))) vs))"
  unfolding deleteMany_def Let_def
  using deleteMany_foldl [of "\<lambda>v. passesFilter flt (e_metadata v)" vs 0 vs]
  by simp

text \<open>
  Claim C10. For every state of the vector store, \<open>deleteMany\<close> called with an argument
  whose \<open>filter\<close> key is absent or holds no constraint, such as the argument
  \<open>{deleteAll: true}\<close> of \<open>clearAllEmbeddings\<close>, deletes every stored record and returns as
  \<open>deletedCount\<close> the number of records stored before.
\<close>

theorem deleteMany_without_constraints:
  "(da_filter arg = None \<or> da_filter arg = Some [] \<longrightarrow> deleteMany vs arg = ([], length vs)) \<and>
   deleteMany vs \<lparr>da_filter = None, da_deleteAll = Some True\<rparr> = ([], length vs) \<and>
   fst (clearAllEmbeddings vs) = []"
proof -
  have *: "deleteMany vs a = ([], length vs)"
    if "da_filter a = None \<or> da_filter a = Some []" for a
  proof -
    from that have flt: "(case da_filter a of None \<Rightarrow> [] | Some f \<Rightarrow> f) = []" by auto
    have "filter (\<lambda>p. fst p \<notin> fst ` set vs) vs = []"
      by (simp add: filter_empty_conv)
    then show ?thesis by (simp add: deleteMany_eq [OF flt])
  qed
  have "deleteMany vs \<lparr>da_filter = None, da_deleteAll = Some True\<rparr> = ([], length vs)"
    by (rule *) simp
  then show ?thesis using * by (simp add: clearAllEmbeddings_def)
qed

text \<open>The store of two records is emptied by an empty filter, with a count of 2.\<close>

theorem deleteMany_without_constraints_witness:
  "da_filter \<lparr>da_filter = Some [], da_deleteAll = None\<rparr> = Some [] \<and>
   deleteMany exampleStore \<lparr>da_filter = Some [], da_deleteAll = None\<rparr> = ([], 2)"
  using deleteMany_without_constraints [of "\<lparr>da_filter = Some [], da_deleteAll = None\<rparr>" exampleStore]
  by (simp add: exampleStore_def)

lemma delete_absent: "map_of al k = None \<Longrightarrow> AList.delete k al = al"
  by (simp add: AList.delete_eq map_of_eq_None_iff filter_id_conv image_iff) auto

lemma deleteDocumentEmbeddings_absent:
  assumes "list_all (\<lambda>(k, v). em_documentId (e_metadata v) \<noteq> docId) vs"
  shows "deleteDocumentEmbeddings vs docId =
           (vs, Inr \<lparr>dr_success = True, dr_deletedCount = 0, dr_documentId = docId,
                     statsBefore = describeIndexStats vs, statsAfter = describeIndexStats vs\<rparr>)"
proof -
  let ?P = "\<lambda>e. passesFilter [(''documentId'', JStr docId)] (e_metadata (snd e))"
  from assms have no: "\<not> ?P e" if "e \<in> set vs" for e
    using that by (auto simp: list_all_iff metadataGet_def)
  then have none: "{e \<in> set vs. ?P e} = {}" and nil: "filter ?P vs = []"
    by (auto simp: filter_empty_conv)
  have "deleteMany vs \<lparr>da_filter = Some [(''documentId'', JStr docId)], da_deleteAll = None\<rparr>
          = (vs, 0)"
    by (subst deleteMany_eq [where flt = "[(''documentId'', JStr docId)]"])
       (simp_all only: none nil Let_def, simp_all)
  then show ?thesis by (simp add: deleteDocumentEmbeddings_def)
qed

text \<open>
  Claim C9, as amended. For every document id with no registered job, no stored chunks and
  no embeddings in the vector store, the delete route answers with status 200, leaves the
  job registry, the chunk table and the vector store unchanged, and reports in its summary
  that neither a job nor chunks were cleared; the \<open>embeddings\<close> flag of the summary is true,
  since the deletion of the embeddings ran without an error (it deleted no record).
\<close>

theorem deleteDocument_unknown:
  assumes "map_of (processedDocuments st) docId = None"
    and "map_of (documentChunks st) docId = None"
    and "list_all (\<lambda>(k, v). em_documentId (e_metadata v) \<noteq> docId) (vectors st)"
  shows "deleteDocument st docId =
           ((200,
             \<lparr>ds_message = ''Document deletion completed'', ds_documentId = docId,
              ds_fileName = ''Unknown Document'',
              ds_storageCleared =
                \<lparr>sc_processedDocuments = False, sc_documentChunks = False,
                 sc_embeddings = True\<rparr>,
              remainingDocs = length (processedDocuments st),
              remainingChunks = length (documentChunks st)\<rparr>),
            st)"
  using assms
  by (cases st) (simp add: deleteDocument_def deleteDocumentEmbeddings_absent delete_absent Let_def)

text \<open>Deleting the unknown \<open>doc2\<close> from a state that holds \<open>doc1\<close>.\<close>

theorem deleteDocument_unknown_witness:
  "map_of (processedDocuments (exampleState Completed)) ''doc2'' = None \<and>
   map_of (documentChunks (exampleState Completed)) ''doc2'' = None \<and>
   list_all (\<lambda>(k, v). em_documentId (e_metadata v) \<noteq> ''doc2'') (vectors (exampleState Completed)) \<and>
   snd (deleteDocument (exampleState Completed) ''doc2'') = exampleState Completed \<and>
   sc_embeddings (ds_storageCleared (snd (fst (deleteDocument (exampleState Completed) ''doc2''))))"
proof -
  have 1: "map_of (processedDocuments (exampleState Completed)) ''doc2'' = None"
    by (simp add: exampleState_def)
  have 2: "map_of (documentChunks (exampleState Completed)) ''doc2'' = None"
    by (simp add: exampleState_def)
  have 3: "list_all (\<lambda>(k, v). em_documentId (e_metadata v) \<noteq> ''doc2'')
             (vectors (exampleState Completed))"
    by (simp add: exampleState_def exampleStore_def exampleMetadata_def)
  from deleteDocument_unknown [OF 1 2 3] 1 2 3 show ?thesis by simp
qed

text \<open>
  On the empty state the summary of a deletion does not report zero cleared items: its
  \<open>embeddings\<close> flag is set.
\<close>

theorem deleteDocument_reports_embeddings_cleared:
  "fst (deleteDocument \<lparr>processedDocuments = [], documentChunks = [], vectors = []\<rparr> ''doc1'')
     = (200,
        \<lparr>ds_message = ''Document deletion completed'', ds_documentId = ''doc1'',
         ds_fileName = ''Unknown Document'',
         ds_storageCleared =
           \<lparr>sc_processedDocuments = False, sc_documentChunks = False, sc_embeddings = True\<rparr>,
         remainingDocs = 0, remainingChunks = 0\<rparr>)"
  by (simp add: deleteDocument_def deleteDocumentEmbeddings_def deleteMany_def
      describeIndexStats_def AList.delete_eq)

lemma count_key_distinct:
  "distinct (map fst al) \<Longrightarrow> map_of al k = Some v \<Longrightarrow> length (filter (\<lambda>p. fst p = k) al) = 1"
proof (induction al)
  case Nil
  then show ?case by simp
next
  case (Cons p al)
  show ?case
  proof (cases "fst p = k")
    case True
    with Cons.prems(1) have "filter (\<lambda>q. fst q = k) al = []"
      by (auto simp: filter_empty_conv image_iff)
    with True show ?thesis by simp
  next
    case False
    with Cons show ?thesis by (cases p) auto
  qed
qed

lemma postDocument_complete:
  assumes fields: "\<not> falsy (pb_fileName body)" "\<not> falsy (pb_fileType body)"
      "\<not> falsy (pb_s3Key body)"
    and keys: "distinct (map fst (processedDocuments st))"
  shows "(\<forall>d. map_of (processedDocuments st) docId = Some d \<and> j_status d = Processing \<longrightarrow>
            postDocument st docId body now
              = ((409, ProcessConflict ''Document is already being processed'' d), st, None) \<and>
            length (filter (\<lambda>p. fst p = docId) (processedDocuments st)) = 1)
       \<and> ((\<forall>d. map_of (processedDocuments st) docId = Some d \<longrightarrow> j_status d \<noteq> Processing) \<longrightarrow>
            (\<exists>j st'.
               postDocument st docId body now
                 = ((200, ProcessStarted ''Document processing started'' j), st',
                    Some \<lparr>bt_documentId = docId, bt_fileName = the (pb_fileName body),
                          bt_fileType = the (pb_fileType body),
                          bt_s3Key = the (pb_s3Key body)\<rparr>) \<and>
               j_status j = Processing \<and> progress j = ''Initializing...'' \<and>
               startedAt j = now \<and> j_documentId j = docId \<and>
               j_fileName j = the (pb_fileName body) \<and>
               map_of (processedDocuments st') docId = Some j \<and>
               length (filter (\<lambda>p. fst p = docId) (processedDocuments st')) = 1 \<and>
               distinct (map fst (processedDocuments st')) \<and>
               (\<forall>k. k \<noteq> docId \<longrightarrow>
                  map_of (processedDocuments st') k = map_of (processedDocuments st) k) \<and>
               documentChunks st' = documentChunks st \<and> vectors st' = vectors st))"
proof (intro conjI allI impI)
  fix d
  assume d: "map_of (processedDocuments st) docId = Some d \<and> j_status d = Processing"
  with fields
  show "postDocument st docId body now
          = ((409, ProcessConflict ''Document is already being processed'' d), st, None)"
    by (simp add: postDocument_def Let_def)
  from keys d [THEN conjunct1]
  show "length (filter (\<lambda>p. fst p = docId) (processedDocuments st)) = 1"
    by (rule count_key_distinct)
next
  assume free: "\<forall>d. map_of (processedDocuments st) docId = Some d \<longrightarrow> j_status d \<noteq> Processing"
  define j where "j =
     \<lparr>j_documentId = docId, j_fileName = the (pb_fileName body),
      j_fileType = the (pb_fileType body), j_s3Key = the (pb_s3Key body),
      j_status = Processing, startedAt = now, progress = ''Initializing...'',
      progressDetails = None, completedAt = None, j_error = None, errorAt = None\<rparr>"
  define st' where
    "st' = st\<lparr>processedDocuments := AList.update docId j (processedDocuments st)\<rparr>"
  from free have nc: "\<not> (case map_of (processedDocuments st) docId of
                          None \<Rightarrow> False | Some d \<Rightarrow> j_status d = Processing)"
    by (auto split: option.splits)
  have run: "postDocument st docId body now
          = ((200, ProcessStarted ''Document processing started'' j), st',
             Some \<lparr>bt_documentId = docId, bt_fileName = the (pb_fileName body),
                   bt_fileType = the (pb_fileType body), bt_s3Key = the (pb_s3Key body)\<rparr>)"
    using fields nc by (simp add: postDocument_def Let_def j_def st'_def)
  have look: "map_of (processedDocuments st') docId = Some j"
    by (simp add: st'_def update_conv')
  have dist: "distinct (map fst (processedDocuments st'))"
    using keys by (simp add: st'_def distinct_update)
  have one: "length (filter (\<lambda>p. fst p = docId) (processedDocuments st')) = 1"
    using dist look by (rule count_key_distinct)
  have other: "\<forall>k. k \<noteq> docId \<longrightarrow>
                 map_of (processedDocuments st') k = map_of (processedDocuments st) k"
    by (simp add: st'_def update_conv')
  have rest: "documentChunks st' = documentChunks st" "vectors st' = vectors st"
    by (simp_all add: st'_def)
  have "j_status j = Processing" "progress j = ''Initializing...''" "startedAt j = now"
    "j_documentId j = docId" "j_fileName j = the (pb_fileName body)"
    by (simp_all add: j_def)
  with run look one dist other rest
  show "\<exists>j st'.
               postDocument st docId body now
                 = ((200, ProcessStarted ''Document processing started'' j), st',
                    Some \<lparr>bt_documentId = docId, bt_fileName = the (pb_fileName body),
                          bt_fileType = the (pb_fileType body),
                          bt_s3Key = the (pb_s3Key body)\<rparr>) \<and>
               j_status j = Processing \<and> progress j = ''Initializing...'' \<and>
               startedAt j = now \<and> j_documentId j = docId \<and>
               j_fileName j = the (pb_fileName body) \<and>
               map_of (processedDocuments st') docId = Some j \<and>
               length (filter (\<lambda>p. fst p = docId) (processedDocuments st')) = 1 \<and>
               distinct (map fst (processedDocuments st')) \<and>
               (\<forall>k. k \<noteq> docId \<longrightarrow>
                  map_of (processedDocuments st') k = map_of (processedDocuments st) k) \<and>
               documentChunks st' = documentChunks st \<and> vectors st' = vectors st"
    by blast
qed

lemma postDocument_incomplete:
  assumes "falsy (pb_fileName body) \<or> falsy (pb_fileType body) \<or> falsy (pb_s3Key body)"
  shows "postDocument st docId body now
           = ((400, ProcessError ''Missing required fields: fileName, fileType, s3Key''), st, None)"
  using assms by (auto simp: postDocument_def)

text \<open>
  Claim C1, as amended. A processing request that lacks a non-empty \<open>fileName\<close>, \<open>fileType\<close>
  or \<open>s3Key\<close> is answered with 400 and changes nothing. For every processing request that
  carries all three: if the job registered for the document id is in status \<open>processing\<close>,
  the request is rejected with 409, the existing job is returned, the state is unchanged
  and exactly one job is registered for the id; otherwise a new job with status
  \<open>processing\<close> and progress \<open>Initializing...\<close> is registered under the id, as its only job,
  this job is returned with status 200, and the background task is started after the
  reply. The registry is a \<open>Map\<close>, with one entry per key.
\<close>

theorem postDocument_entry:
  "(falsy (pb_fileName body) \<or> falsy (pb_fileType body) \<or> falsy (pb_s3Key body) \<longrightarrow>
      postDocument st docId body now
        = ((400, ProcessError ''Missing required fields: fileName, fileType, s3Key''), st, None)) \<and>
   (\<not> falsy (pb_fileName body) \<and> \<not> falsy (pb_fileType body) \<and> \<not> falsy (pb_s3Key body) \<and>
    distinct (map fst (processedDocuments st)) \<longrightarrow>
      (\<forall>d. map_of (processedDocuments st) docId = Some d \<and> j_status d = Processing \<longrightarrow>
            postDocument st docId body now
              = ((409, ProcessConflict ''Document is already being processed'' d), st, None) \<and>
            length (filter (\<lambda>p. fst p = docId) (processedDocuments st)) = 1)
       \<and> ((\<forall>d. map_of (processedDocuments st) docId = Some d \<longrightarrow> j_status d \<noteq> Processing) \<longrightarrow>
            (\<exists>j st'.
               postDocument st docId body now
                 = ((200, ProcessStarted ''Document processing started'' j), st',
                    Some \<lparr>bt_documentId = docId, bt_fileName = the (pb_fileName body),
                          bt_fileType = the (pb_fileType body),
                          bt_s3Key = the (pb_s3Key body)\<rparr>) \<and>
               j_status j = Processing \<and> progress j = ''Initializing...'' \<and>
               startedAt j = now \<and> j_documentId j = docId \<and>
               j_fileName j = the (pb_fileName body) \<and>
               map_of (processedDocuments st') docId = Some j \<and>
               length (filter (\<lambda>p. fst p = docId) (processedDocuments st')) = 1 \<and>
               distinct (map fst (processedDocuments st')) \<and>
               (\<forall>k. k \<noteq> docId \<longrightarrow>
                  map_of (processedDocuments st') k = map_of (processedDocuments st) k) \<and>
               documentChunks st' = documentChunks st \<and> vectors st' = vectors st)))"
proof (rule conjI; rule impI)
  assume "falsy (pb_fileName body) \<or> falsy (pb_fileType body) \<or> falsy (pb_s3Key body)"
  then show "postDocument st docId body now
        = ((400, ProcessError ''Missing required fields: fileName, fileType, s3Key''), st, None)"
    by (rule postDocument_incomplete)
next
  assume "\<not> falsy (pb_fileName body) \<and> \<not> falsy (pb_fileType body) \<and>
          \<not> falsy (pb_s3Key body) \<and> distinct (map fst (processedDocuments st))"
  then have f: "\<not> falsy (pb_fileName body)" "\<not> falsy (pb_fileType body)"
    "\<not> falsy (pb_s3Key body)" and k: "distinct (map fst (processedDocuments st))"
    by simp_all
  from postDocument_complete [OF f k, of docId now]
  show "(\<forall>d. map_of (processedDocuments st) docId = Some d \<and> j_status d = Processing \<longrightarrow>
            postDocument st docId body now
              = ((409, ProcessConflict ''Document is already being processed'' d), st, None) \<and>
            length (filter (\<lambda>p. fst p = docId) (processedDocuments st)) = 1)
       \<and> ((\<forall>d. map_of (processedDocuments st) docId = Some d \<longrightarrow> j_status d \<noteq> Processing) \<longrightarrow>
            (\<exists>j st'.
               postDocument st docId body now
                 = ((200, ProcessStarted ''Document processing started'' j), st',
                    Some \<lparr>bt_documentId = docId, bt_fileName = the (pb_fileName body),
                          bt_fileType = the (pb_fileType body),
                          bt_s3Key = the (pb_s3Key body)\<rparr>) \<and>
               j_status j = Processing \<and> progress j = ''Initializing...'' \<and>
               startedAt j = now \<and> j_documentId j = docId \<and>
               j_fileName j = the (pb_fileName body) \<and>
               map_of (processedDocuments st') docId = Some j \<and>
               length (filter (\<lambda>p. fst p = docId) (processedDocuments st')) = 1 \<and>
               distinct (map fst (processedDocuments st')) \<and>
               (\<forall>k. k \<noteq> docId \<longrightarrow>
                  map_of (processedDocuments st') k = map_of (processedDocuments st) k) \<and>
               documentChunks st' = documentChunks st \<and> vectors st' = vectors st))" .
qed

text \<open>
  A complete request for \<open>doc1\<close> is rejected while \<open>doc1\<close> is processing and accepted once it
  is completed; a request with an empty \<open>s3Key\<close> is answered with 400 and leaves the state
  as it is.
\<close>

theorem postDocument_entry_witness:
  "\<not> falsy (pb_fileName exampleBody) \<and> \<not> falsy (pb_fileType exampleBody) \<and>
   \<not> falsy (pb_s3Key exampleBody) \<and>
   distinct (map fst (processedDocuments (exampleState Processing))) \<and>
   map_of (processedDocuments (exampleState Processing)) ''doc1'' = Some (exampleJob Processing) \<and>
   j_status (exampleJob Processing) = Processing \<and>
   postDocument (exampleState Processing) ''doc1'' exampleBody ''2024-01-02T00:00:00.000Z''
     = ((409, ProcessConflict ''Document is already being processed'' (exampleJob Processing)),
        exampleState Processing, None) \<and>
   fst (fst (postDocument (exampleState Completed) ''doc1'' exampleBody
               ''2024-01-02T00:00:00.000Z'')) = 200 \<and>
   falsy (pb_s3Key (exampleBody\<lparr>pb_s3Key := Some []\<rparr>)) \<and>
   postDocument (exampleState Completed) ''doc1'' (exampleBody\<lparr>pb_s3Key := Some []\<rparr>)
       ''2024-01-02T00:00:00.000Z''
     = ((400, ProcessError ''Missing required fields: fileName, fileType, s3Key''),
        exampleState Completed, None)"
proof -
  have f: "\<not> falsy (pb_fileName exampleBody)" "\<not> falsy (pb_fileType exampleBody)"
    "\<not> falsy (pb_s3Key exampleBody)"
    by (simp_all add: exampleBody_def falsy_def)
  have e: "falsy (pb_s3Key (exampleBody\<lparr>pb_s3Key := Some []\<rparr>))"
    by (simp add: falsy_def)
  have k: "distinct (map fst (processedDocuments (exampleState s)))" for s
    by (simp add: exampleState_def)
  have m: "map_of (processedDocuments (exampleState s)) ''doc1'' = Some (exampleJob s)" for s
    by (simp add: exampleState_def)
  have p: "j_status (exampleJob s) = s" for s
    by (simp add: exampleJob_def)
  from postDocument_entry [of exampleBody "exampleState Processing" "''doc1''"
      "''2024-01-02T00:00:00.000Z''"] f k m p
  have 1: "postDocument (exampleState Processing) ''doc1'' exampleBody ''2024-01-02T00:00:00.000Z''
     = ((409, ProcessConflict ''Document is already being processed'' (exampleJob Processing)),
        exampleState Processing, None)"
    by blast
  from postDocument_entry [of exampleBody "exampleState Completed" "''doc1''"
      "''2024-01-02T00:00:00.000Z''"] f k m p
  have 2: "fst (fst (postDocument (exampleState Completed) ''doc1'' exampleBody
               ''2024-01-02T00:00:00.000Z'')) = 200"
    by auto
  from postDocument_entry [of "exampleBody\<lparr>pb_s3Key := Some []\<rparr>" "exampleState Completed"
      "''doc1''" "''2024-01-02T00:00:00.000Z''"] e
  have 3: "postDocument (exampleState Completed) ''doc1'' (exampleBody\<lparr>pb_s3Key := Some []\<rparr>)
       ''2024-01-02T00:00:00.000Z''
     = ((400, ProcessError ''Missing required fields: fileName, fileType, s3Key''),
        exampleState Completed, None)"
    by blast
  from f k m p e 1 2 3 show ?thesis by simp
qed

text \<open>
  A request without \<open>fileName\<close> for a document that is processing is answered with 400,
  not with 409.
\<close>

theorem postDocument_missing_field_while_processing:
  "map_of (processedDocuments (exampleState Processing)) ''doc1'' = Some (exampleJob Processing) \<and>
   j_status (exampleJob Processing) = Processing \<and>
   postDocument (exampleState Processing) ''doc1''
       \<lparr>pb_fileName = None, pb_fileType = Some ''text/plain'',
        pb_s3Key = Some ''documents/1-notes.txt''\<rparr> ''2024-01-02T00:00:00.000Z''
     = ((400, ProcessError ''Missing required fields: fileName, fileType, s3Key''),
        exampleState Processing, None)"
  by (simp add: postDocument_def falsy_def exampleState_def exampleJob_def)

section \<open>Cosine similarity in exact arithmetic\<close>

lemma cosineLoopExact_sums:
  "length a = length b \<Longrightarrow>
   cosineLoopExact a b (d, na, nb)
     = (d + sum_list (map2 (*) a b), na + sum_list (map (\<lambda>x. x * x) a),
        nb + sum_list (map (\<lambda>y. y * y) b))"
  by (induction a b arbitrary: d na nb rule: list_induct2) (simp_all add: algebra_simps)

lemma sum_list_squares_nonneg: "0 \<le> sum_list (map (\<lambda>x. x * x) (a :: real list))"
  by (induction a) simp_all

lemma cauchy_schwarz_step:
  fixes d A B x y :: real
  assumes "d\<^sup>2 \<le> A * B" "0 \<le> A" "0 \<le> B"
  shows "(d + x * y)\<^sup>2 \<le> (A + x * x) * (B + y * y)"
proof -
  have "(2 * d * x * y)\<^sup>2 = 4 * d\<^sup>2 * (x * y)\<^sup>2"
    by (simp add: power2_eq_square algebra_simps)
  also have "\<dots> \<le> 4 * (A * B) * (x * y)\<^sup>2"
    using assms(1) by (intro mult_right_mono mult_left_mono) simp_all
  also have "\<dots> \<le> 4 * (A * B) * (x * y)\<^sup>2 + (A * y\<^sup>2 - B * x\<^sup>2)\<^sup>2"
    by simp
  also have "\<dots> = (A * y\<^sup>2 + B * x\<^sup>2)\<^sup>2"
    by (simp add: power2_eq_square algebra_simps)
  finally have "(2 * d * x * y)\<^sup>2 \<le> (A * y\<^sup>2 + B * x\<^sup>2)\<^sup>2" .
  moreover have "0 \<le> A * y\<^sup>2 + B * x\<^sup>2"
    using assms(2,3) by simp
  ultimately have "2 * d * x * y \<le> A * y\<^sup>2 + B * x\<^sup>2"
    by (rule power2_le_imp_le)
  moreover have "(A + x * x) * (B + y * y) - (d + x * y)\<^sup>2
                   = (A * B - d\<^sup>2) + (A * y\<^sup>2 + B * x\<^sup>2 - 2 * d * x * y)"
    by (simp add: power2_eq_square algebra_simps)
  ultimately show ?thesis using assms(1) by linarith
qed

lemma cauchy_schwarz_lists:
  "length a = length b \<Longrightarrow>
   (sum_list (map2 (*) a b))\<^sup>2
     \<le> sum_list (map (\<lambda>x. x * x) a) * sum_list (map (\<lambda>y. y * y) (b :: real list))"
proof (induction a b rule: list_induct2)
  case Nil
  then show ?case by simp
next
  case (Cons x xs y ys)
  have "(sum_list (map2 (*) xs ys) + x * y)\<^sup>2
          \<le> (sum_list (map (\<lambda>x. x * x) xs) + x * x) * (sum_list (map (\<lambda>y. y * y) ys) + y * y)"
    by (rule cauchy_schwarz_step [OF Cons.IH sum_list_squares_nonneg sum_list_squares_nonneg])
  then show ?case by (simp add: add.commute)
qed

lemma dot_sum_list: "length a = length b \<Longrightarrow> dot a b = sum_list (map2 (*) a b)"
proof -
  assume len: "length a = length b"
  have "sum_list (map2 (*) a b) = (\<Sum>i = 0..<length (map2 (*) a b). map2 (*) a b ! i)"
    by (rule sum_list_sum_nth)
  also have "\<dots> = (\<Sum>i<length a. a ! i * b ! i)"
    using len by (intro sum.cong) (auto simp: lessThan_atLeast0)
  finally show ?thesis by (simp add: dot_def)
qed

lemma vnorm_sum_list: "vnorm a = sqrt (sum_list (map (\<lambda>x. x * x) a))"
proof -
  have "sum_list (map (\<lambda>x. x * x) a) = (\<Sum>i = 0..<length (map (\<lambda>x. x * x) a). map (\<lambda>x. x * x) a ! i)"
    by (rule sum_list_sum_nth)
  also have "\<dots> = (\<Sum>i<length a. (a ! i)\<^sup>2)"
    by (intro sum.cong) (auto simp: lessThan_atLeast0 power2_eq_square)
  finally show ?thesis by (simp add: vnorm_def)
qed

lemma cosineSimilarityExact_eq:
  "length a = length b \<Longrightarrow>
   cosineSimilarityExact a b
     = (if vnorm a * vnorm b > 0 then dot a b / (vnorm a * vnorm b) else 0)"
  by (simp add: cosineSimilarityExact_def cosineLoopExact_sums dot_sum_list vnorm_sum_list Let_def)

lemma vnorm_nonneg: "0 \<le> vnorm a"
  by (simp add: vnorm_sum_list sum_list_squares_nonneg)

lemma cosineSimilarityExact_formula:
  assumes "length a = length b"
  shows "cosineSimilarityExact a b
     = (if vnorm a = 0 \<or> vnorm b = 0 then 0 else dot a b / (vnorm a * vnorm b))"
proof -
  have "vnorm a * vnorm b > 0 \<longleftrightarrow> \<not> (vnorm a = 0 \<or> vnorm b = 0)"
    using vnorm_nonneg [of a] vnorm_nonneg [of b]
    by (auto simp: zero_less_mult_iff less_le)
  with assms show ?thesis by (simp add: cosineSimilarityExact_eq)
qed

lemma abs_dot_le:
  assumes "length a = length b"
  shows "\<bar>dot a b\<bar> \<le> vnorm a * vnorm b"
proof -
  have "sqrt ((dot a b)\<^sup>2)
          \<le> sqrt (sum_list (map (\<lambda>x. x * x) a) * sum_list (map (\<lambda>y. y * y) b))"
    using cauchy_schwarz_lists [OF assms] unfolding dot_sum_list [OF assms]
    by (rule real_sqrt_le_mono)
  then have "\<bar>dot a b\<bar>
          \<le> sqrt (sum_list (map (\<lambda>x. x * x) a) * sum_list (map (\<lambda>y. y * y) b))"
    by simp
  also have "\<dots> = vnorm a * vnorm b"
    by (simp add: vnorm_sum_list real_sqrt_mult)
  finally show ?thesis .
qed

lemma cosineSimilarityExact_abs_le: "\<bar>cosineSimilarityExact a b\<bar> \<le> 1"
proof (cases "length a = length b")
  case True
  show ?thesis
  proof (cases "vnorm a * vnorm b > 0")
    case pos: True
    have "\<bar>dot a b / (vnorm a * vnorm b)\<bar> = \<bar>dot a b\<bar> / (vnorm a * vnorm b)"
      using pos by simp
    also have "\<dots> \<le> 1"
      using abs_dot_le [OF True] pos by simp
    finally show ?thesis using pos by (simp add: cosineSimilarityExact_eq [OF True])
  next
    case False
    then show ?thesis by (simp add: cosineSimilarityExact_eq [OF True])
  qed
next
  case False
  then show ?thesis by (simp add: cosineSimilarityExact_def)
qed


section \<open>Properties of the cosine similarity in double precision\<close>

text \<open>
  The two recursive functions are unfolded by hand; the lemmas below determine the values
  of the rounding functions from inequalities, which the simplifier decides on numerals.
\<close>

declare bitLength.simps [simp del] sqrtSearch.simps [simp del]

lemma bitLength_eqI:
  "2 ^ k \<le> n \<Longrightarrow> n < 2 ^ Suc k \<Longrightarrow> bitLength n = int k + 1"
proof (induction k arbitrary: n)
  case 0
  then have "n = 1" by simp
  then show ?case by (simp add: bitLength.simps [of 1] bitLength.simps [of 0])
next
  case (Suc k)
  have "2 ^ k \<le> n div 2" and "n div 2 < 2 ^ Suc k"
    using Suc.prems by auto
  then have "bitLength (n div 2) = int k + 1"
    by (rule Suc.IH)
  moreover have "0 < n"
    using Suc.prems(1) by (smt (verit) zero_less_power)
  ultimately show ?case
    by (simp add: bitLength.simps [of n])
qed

lemma pow2_nonneg: "0 \<le> e \<Longrightarrow> pow2 e = 2 ^ nat e"
  by (simp add: pow2_def)

lemma pow2_neg: "e < 0 \<Longrightarrow> pow2 e = 1 / 2 ^ nat (- e)"
  by (simp add: pow2_def)

lemma floorLog2_eqI_ge:
  assumes "0 \<le> e" "pow2 e \<le> x" "x < pow2 (e + 1)"
  shows "floorLog2 x = e"
proof -
  have p: "pow2 e = of_int (2 ^ nat e)" "pow2 (e + 1) = of_int (2 ^ Suc (nat e))"
    using assms(1) by (simp_all add: pow2_def nat_add_distrib)
  have "1 \<le> pow2 e" using assms(1) by (simp add: pow2_def)
  with assms(2) have x1: "1 \<le> x" by simp
  have "(2::int) ^ nat e \<le> \<lfloor>x\<rfloor>"
    using assms(2) unfolding p(1) by (simp add: le_floor_iff)
  moreover have "\<lfloor>x\<rfloor> < (2::int) ^ Suc (nat e)"
    using assms(3) unfolding p(2) by (simp only: floor_less_iff)
  ultimately have "bitLength \<lfloor>x\<rfloor> = int (nat e) + 1"
    by (rule bitLength_eqI)
  with x1 assms(1) show ?thesis by (simp add: floorLog2_def)
qed

lemma floorSqrt_search:
  assumes "lo * lo \<le> n" "n < hi * hi" "0 \<le> lo" "lo < hi" "0 \<le> r" "r * r \<le> n"
    "n < (r + 1) * (r + 1)"
  shows "sqrtSearch n lo hi = r"
  using assms
proof (induction n lo hi rule: sqrtSearch.induct)
  case (1 n lo hi)
  show ?case
  proof (cases "hi \<le> lo + 1")
    case True
    with "1.prems" have hi: "hi = lo + 1" by simp
    have "lo = r"
    proof (rule ccontr)
      assume "lo \<noteq> r"
      then consider "lo + 1 \<le> r" | "r + 1 \<le> lo" by linarith
      then show False
      proof cases
        case 1
        then have "(lo + 1) * (lo + 1) \<le> r * r"
          using "1.prems"(3) by (intro mult_mono) simp_all
        with "1.prems"(2,6) hi show False by simp
      next
        case 2
        then have "(r + 1) * (r + 1) \<le> lo * lo"
          using "1.prems"(5) by (intro mult_mono) simp_all
        with "1.prems"(1,7) show False by simp
      qed
    qed
    moreover from True have "sqrtSearch n lo hi = lo"
      by (subst sqrtSearch.simps) simp
    ultimately show ?thesis by simp
  next
    case False
    define mid where "mid = (lo + hi) div 2"
    have m: "lo < mid" "mid < hi" "0 \<le> mid"
      using False "1.prems"(3,4) by (simp_all add: mid_def)
    show ?thesis
    proof (cases "mid * mid \<le> n")
      case True
      have "sqrtSearch n mid hi = r"
        by (rule "1.IH"(1) [OF False mid_def True True "1.prems"(2) m(3) m(2) "1.prems"(5,6,7)])
      moreover from False True have "sqrtSearch n lo hi = sqrtSearch n mid hi"
        by (subst sqrtSearch.simps) (simp add: mid_def Let_def)
      ultimately show ?thesis by simp
    next
      case F: False
      from F have "n < mid * mid" by simp
      then have "sqrtSearch n lo mid = r"
        by (rule "1.IH"(2) [OF False mid_def F "1.prems"(1) _ "1.prems"(3) m(1) "1.prems"(5,6,7)])
      moreover from False F have "sqrtSearch n lo hi = sqrtSearch n lo mid"
        by (subst sqrtSearch.simps) (simp add: mid_def Let_def)
      ultimately show ?thesis by simp
    qed
  qed
qed

lemma floorSqrt_eqI:
  assumes "0 \<le> r" "r * r \<le> n" "n < (r + 1) * (r + 1)"
  shows "floorSqrt n = r"
proof -
  have n0: "0 \<le> n" using assms(1,2) by (smt (verit) mult_nonneg_nonneg)
  have "n < (n + 1) * (n + 1)"
    using n0 by (smt (verit) mult_le_cancel_left1 mult.commute mult_nonneg_nonneg distrib_left mult_1_right)
  then show ?thesis
    unfolding floorSqrt_def using assms n0
    by (intro floorSqrt_search) simp_all
qed


lemma nearestEven_eqI:
  assumes "of_int m - 1 / 2 < n" "n < of_int m + 1 / 2"
  shows "nearestEven n = m"
proof (cases "of_int m \<le> n")
  case True
  with assms(2) have f: "\<lfloor>n\<rfloor> = m" by (simp add: floor_eq_iff)
  with assms(2) show ?thesis by (simp add: nearestEven_def Let_def)
next
  case False
  with assms(1) have f: "\<lfloor>n\<rfloor> = m - 1" by (simp add: floor_eq_iff)
  from assms(1) have "\<not> n - of_int (m - 1) < 1 / 2" "n - of_int (m - 1) > 1 / 2" by simp_all
  with f show ?thesis by (simp add: nearestEven_def Let_def)
qed

lemma roundToDouble_eval:
  assumes "0 \<le> e" "pow2 e \<le> x" "x < pow2 (e + 1)"
    and "of_int m - 1 / 2 < x / pow2 (e - 52)" "x / pow2 (e - 52) < of_int m + 1 / 2"
  shows "roundToDouble s x =
           (if of_int m * pow2 (e - 52) \<ge> pow2 1024 then Infinity s
            else Finite s (of_int m * pow2 (e - 52)))"
proof -
  have "0 < pow2 e" by (simp add: pow2_def)
  with assms(2) have "x \<noteq> 0" by simp
  moreover have "floorLog2 x = e" using assms(1-3) by (rule floorLog2_eqI_ge)
  moreover have "nearestEven (x / pow2 (e - 52)) = m" using assms(4,5) by (rule nearestEven_eqI)
  ultimately show ?thesis
    using assms(1) by (simp add: roundToDouble_def Let_def max_def)
qed

lemma sqrtToDouble_eval:
  assumes "0 \<le> l" "pow2 l \<le> x" "x < pow2 (l + 1)"
    and "0 \<le> f" "of_int (f * f) \<le> x / (pow2 (l div 2 - 52) * pow2 (l div 2 - 52))"
    and "x / (pow2 (l div 2 - 52) * pow2 (l div 2 - 52)) < of_int ((f + 1) * (f + 1))"
  shows "sqrtToDouble x =
           (let ulp = pow2 (l div 2 - 52);
                t = x / (ulp * ulp);
                h = (of_int f + 1 / 2) * (of_int f + 1 / 2);
                m = (if t < h then f else if t > h then f + 1 else if even f then f else f + 1)
            in Finite False (of_int m * ulp))"
proof -
  have fl: "floorLog2 x = l" using assms(1-3) by (rule floorLog2_eqI_ge)
  have "f * f \<le> \<lfloor>x / (pow2 (l div 2 - 52) * pow2 (l div 2 - 52))\<rfloor>"
    using assms(5) by (simp only: le_floor_iff)
  moreover have "\<lfloor>x / (pow2 (l div 2 - 52) * pow2 (l div 2 - 52))\<rfloor> < (f + 1) * (f + 1)"
    using assms(6) by (simp only: floor_less_iff)
  ultimately have fs: "floorSqrt \<lfloor>x / (pow2 (l div 2 - 52) * pow2 (l div 2 - 52))\<rfloor> = f"
    by (rule floorSqrt_eqI [OF assms(4)])
  show ?thesis
    by (simp only: sqrtToDouble_def Let_def fl fs)
qed

lemma round_1: "roundToDouble False 1 = Finite False 1"
  by (subst roundToDouble_eval [where e = 0 and m = 4503599627370496]) (simp_all add: pow2_def)

lemma round_2: "roundToDouble False 2 = Finite False 2"
  by (subst roundToDouble_eval [where e = 1 and m = 4503599627370496]) (simp_all add: pow2_def)

lemma round_3: "roundToDouble False 3 = Finite False 3"
  by (subst roundToDouble_eval [where e = 1 and m = 6755399441055744]) (simp_all add: pow2_def)

lemma sqrt_3: "sqrtToDouble 3 = Finite False (3900231685776981 / 2251799813685248)"
  by (subst sqrtToDouble_eval [where l = 1 and f = 7800463371553962])
     (simp_all add: pow2_def Let_def)

lemma square_sqrt_3:
  "roundToDouble False ((3900231685776981 / 2251799813685248) * (3900231685776981 / 2251799813685248))
     = Finite False (6755399441055743 / 2251799813685248)"
  by (subst roundToDouble_eval [where e = 1 and m = 6755399441055743]) (simp_all add: pow2_def)

lemma quotient_3:
  "roundToDouble False (6755399441055744 / 6755399441055743)
     = Finite False (4503599627370497 / 4503599627370496)"
  by (subst roundToDouble_eval [where e = 0 and m = 4503599627370497]) (simp_all add: pow2_def)

lemma ones_score:
  "cosineSimilarity [doubleOne, doubleOne, doubleOne] [doubleOne, doubleOne, doubleOne]
     = Finite False (4503599627370497 / 4503599627370496)"
proof -
  have loop: "cosineLoop [doubleOne, doubleOne, doubleOne] [doubleOne, doubleOne, doubleOne]
                (positiveZero, positiveZero, positiveZero)
              = (Finite False 3, Finite False 3, Finite False 3)"
    by (simp add: doubleOne_def positiveZero_def signed_def round_1 round_2 round_3)
  have mag: "fmul (sqrtToDouble 3) (sqrtToDouble 3)
               = Finite False (6755399441055743 / 2251799813685248)"
    using square_sqrt_3 by (simp add: sqrt_3)
  show ?thesis
    unfolding cosineSimilarity_def loop by (simp add: mag quotient_3)
qed


lemma round_overflow: "roundToDouble False (2 ^ 600 * 2 ^ 600) = Infinity False"
proof -
  have p: "pow2 1200 = 2 ^ 1200" "pow2 1201 = 2 ^ 1201" "pow2 1148 = 2 ^ 1148"
    "pow2 1024 = 2 ^ 1024"
    by (simp_all add: pow2_def)
  have x: "(2::rat) ^ 600 * 2 ^ 600 = 2 ^ 1200"
    by (simp add: power_add [symmetric])
  have d: "(2::rat) ^ 1200 / 2 ^ 1148 = 2 ^ 52"
    by (simp add: power_diff)
  have m: "rat_of_int 4503599627370496 * 2 ^ 1148 = 2 ^ 1200"
  proof -
    have "rat_of_int 4503599627370496 = 2 ^ 52" by simp
    then show ?thesis by (simp only: power_add [symmetric]) simp
  qed
  have "roundToDouble False (2 ^ 1200) =
          (if of_int 4503599627370496 * pow2 (1200 - 52) \<ge> pow2 1024 then Infinity False
           else Finite False (of_int 4503599627370496 * pow2 (1200 - 52)))"
  proof (rule roundToDouble_eval)
    show "(0::int) \<le> 1200" by simp
    show "pow2 1200 \<le> 2 ^ 1200" by (simp add: p)
    show "(2::rat) ^ 1200 < pow2 (1200 + 1)" by (simp add: p)
    show "rat_of_int 4503599627370496 - 1 / 2 < 2 ^ 1200 / pow2 (1200 - 52)"
      by (simp add: p d)
    show "2 ^ 1200 / pow2 (1200 - 52) < rat_of_int 4503599627370496 + 1 / 2"
      by (simp add: p d)
  qed
  moreover have "pow2 1024 \<le> rat_of_int 4503599627370496 * pow2 (1200 - 52)"
    by (simp add: p m)
  ultimately show ?thesis by (simp add: x)
qed

lemma fmul_huge: "fmul hugeDouble hugeDouble = Infinity False"
  using round_overflow by (simp add: hugeDouble_def)

lemma huge_score: "cosineSimilarity [hugeDouble] [hugeDouble] = NaN"
  by (simp add: cosineSimilarity_def positiveZero_def fmul_huge)

lemma cosineLoop_fold:
  "length a = length b \<Longrightarrow>
   cosineLoop a b (d, na, nb)
     = (foldl fadd d (map2 fmul a b), foldl fadd na (map (\<lambda>x. fmul x x) a),
        foldl fadd nb (map (\<lambda>y. fmul y y) b))"
  by (induction a b arbitrary: d na nb rule: list_induct2) simp_all

lemma cosineSimilarity_formula:
  assumes "length a = length b"
  shows "cosineSimilarity a b =
       (let dotProduct = fsum (map2 fmul a b);
            normA = fsum (map (\<lambda>x. fmul x x) a);
            normB = fsum (map (\<lambda>y. fmul y y) b);
            magnitude = fmul (fsqrt normA) (fsqrt normB)
        in if greaterThanZero magnitude then fdiv dotProduct magnitude else positiveZero)"
  using assms by (simp add: cosineSimilarity_def cosineLoop_fold fsum_def Let_def)

lemma isZero_cases: "isZero x \<Longrightarrow> \<exists>s. x = Finite s 0"
  by (cases x) (simp_all add: isZero_def)

lemma roundToDouble_zero: "roundToDouble s 0 = Finite s 0"
  by (simp add: roundToDouble_def)

lemma fmul_zero_self: "isZero x \<Longrightarrow> fmul x x = positiveZero"
  by (auto dest!: isZero_cases simp: roundToDouble_zero positiveZero_def)

lemma fsum_zeros:
  "\<forall>x \<in> set xs. x = positiveZero \<Longrightarrow> foldl fadd positiveZero xs = positiveZero"
proof (induction xs)
  case Nil
  then show ?case by simp
next
  case (Cons x xs)
  then have "x = positiveZero" by simp
  then have "fadd positiveZero x = positiveZero"
    by (simp add: positiveZero_def signed_def)
  with Cons show ?case by simp
qed

lemma norm_of_zeros:
  "\<forall>x \<in> set a. isZero x \<Longrightarrow> fsum (map (\<lambda>x. fmul x x) a) = positiveZero"
  unfolding fsum_def by (rule fsum_zeros) (auto simp: fmul_zero_self)

lemma fsqrt_zero: "isZero n \<Longrightarrow> isZero (fsqrt n)"
proof -
  assume "isZero n"
  then obtain s where "n = Finite s 0" by (auto dest: isZero_cases)
  then show "isZero (fsqrt n)" by (simp add: isZero_def)
qed

lemma not_greater_zero_left: "isZero x \<Longrightarrow> \<not> greaterThanZero (fmul x y)"
  by (cases y) (auto dest!: isZero_cases simp: roundToDouble_zero)

lemma not_greater_zero_right: "isZero y \<Longrightarrow> \<not> greaterThanZero (fmul x y)"
  by (cases x) (auto dest!: isZero_cases simp: roundToDouble_zero)

lemma cosine_zero_norm:
  assumes "length a = length b"
    and "isZero (fsum (map (\<lambda>x. fmul x x) a)) \<or> isZero (fsum (map (\<lambda>y. fmul y y) b))"
  shows "cosineSimilarity a b = positiveZero"
proof -
  from assms(2)
  have "\<not> greaterThanZero (fmul (fsqrt (fsum (map (\<lambda>x. fmul x x) a)))
                             (fsqrt (fsum (map (\<lambda>y. fmul y y) b))))"
  proof
    assume "isZero (fsum (map (\<lambda>x. fmul x x) a))"
    then have "isZero (fsqrt (fsum (map (\<lambda>x. fmul x x) a)))" by (rule fsqrt_zero)
    then show ?thesis by (rule not_greater_zero_left)
  next
    assume "isZero (fsum (map (\<lambda>y. fmul y y) b))"
    then have "isZero (fsqrt (fsum (map (\<lambda>y. fmul y y) b)))" by (rule fsqrt_zero)
    then show ?thesis by (rule not_greater_zero_right)
  qed
  then show ?thesis
    by (simp add: cosineSimilarity_formula [OF assms(1)] Let_def)
qed

lemma isZero_positiveZero: "isZero positiveZero"
  by (simp add: isZero_def positiveZero_def)

lemma cosine_zero_vector_left:
  assumes "\<forall>x \<in> set a. isZero x"
  shows "cosineSimilarity a b = positiveZero"
proof (cases "length a = length b")
  case True
  then show ?thesis
    by (rule cosine_zero_norm) (simp add: norm_of_zeros [OF assms] isZero_positiveZero)
next
  case False
  then show ?thesis by (simp add: cosineSimilarity_def)
qed

lemma cosine_zero_vector_right:
  assumes "\<forall>y \<in> set b. isZero y"
  shows "cosineSimilarity a b = positiveZero"
proof (cases "length a = length b")
  case True
  then show ?thesis
    by (rule cosine_zero_norm) (simp add: norm_of_zeros [OF assms] isZero_positiveZero)
next
  case False
  then show ?thesis by (simp add: cosineSimilarity_def)
qed

lemma exact_quotient_bounds:
  assumes "length a = length b" "vnorm a \<noteq> 0" "vnorm b \<noteq> 0"
  shows "- 1 \<le> dot a b / (vnorm a * vnorm b)" and "dot a b / (vnorm a * vnorm b) \<le> 1"
proof -
  have pos: "0 < vnorm a * vnorm b"
    using assms(2,3) vnorm_nonneg [of a] vnorm_nonneg [of b]
    by (simp add: zero_less_mult_iff less_le)
  have "\<bar>dot a b / (vnorm a * vnorm b)\<bar> = \<bar>dot a b\<bar> / (vnorm a * vnorm b)"
    using pos by simp
  also have "\<dots> \<le> 1"
    using abs_dot_le [OF assms(1)] pos by simp
  finally have "\<bar>dot a b / (vnorm a * vnorm b)\<bar> \<le> 1" .
  then show "- 1 \<le> dot a b / (vnorm a * vnorm b)" and "dot a b / (vnorm a * vnorm b) \<le> 1"
    by (simp_all only: abs_le_iff) linarith+
qed

text \<open>
  Claim C4, as amended. For all arrays \<open>a\<close> and \<open>b\<close> of numbers of equal length, the cosine
  similarity of the vector store is the quotient of the dot product by the product of the
  square roots of the two sums of squares, where every product, every sum, both roots, the
  magnitude and the quotient are rounded to double precision, if that magnitude is greater
  than 0, and it is 0 otherwise; it is 0 whenever one of the two computed sums of squares
  is 0. A vector of zeros scores 0 against every vector, on either side and whatever the
  lengths. In exact arithmetic the quotient \<open>dot(u, v) / (|u| * |v|)\<close> of two vectors of equal
  length with norms other than 0 lies between -1 and 1.
\<close>

theorem cosine_similarity_double:
  "(length a = length b \<longrightarrow>
      cosineSimilarity a b =
        (let dotProduct = fsum (map2 fmul a b);
             normA = fsum (map (\<lambda>x. fmul x x) a);
             normB = fsum (map (\<lambda>y. fmul y y) b);
             magnitude = fmul (fsqrt normA) (fsqrt normB)
         in if greaterThanZero magnitude then fdiv dotProduct magnitude else positiveZero) \<and>
      (isZero (fsum (map (\<lambda>x. fmul x x) a)) \<or> isZero (fsum (map (\<lambda>y. fmul y y) b))
         \<longrightarrow> cosineSimilarity a b = positiveZero)) \<and>
   ((\<forall>x \<in> set a. isZero x) \<longrightarrow> cosineSimilarity a b = positiveZero) \<and>
   ((\<forall>y \<in> set b. isZero y) \<longrightarrow> cosineSimilarity a b = positiveZero) \<and>
   (length u = length v \<and> vnorm u \<noteq> 0 \<and> vnorm v \<noteq> 0 \<longrightarrow>
      - 1 \<le> dot u v / (vnorm u * vnorm v) \<and> dot u v / (vnorm u * vnorm v) \<le> 1)"
  using cosineSimilarity_formula [of a b] cosine_zero_norm [of a b]
    cosine_zero_vector_left [of a b] cosine_zero_vector_right [of b a]
    exact_quotient_bounds [of u v]
  by blast


lemma vnorm_pair: "vnorm [x, y] = sqrt (x * x + y * y)"
  by (simp add: vnorm_sum_list)

text \<open>
  A vector of a positive and a negative zero against the vector \<open>[1, 1]\<close>, on either side, and
  the exact quotient of \<open>[1, 0]\<close> and \<open>[3, 4]\<close>.
\<close>

theorem cosine_similarity_double_witness:
  "length [positiveZero, Finite True 0] = length [doubleOne, doubleOne] \<and>
   list_all isZero [positiveZero, Finite True 0] \<and>
   isZero (fsum (map (\<lambda>x. fmul x x) [positiveZero, Finite True 0])) \<and>
   cosineSimilarity [positiveZero, Finite True 0] [doubleOne, doubleOne] = positiveZero \<and>
   cosineSimilarity [doubleOne, doubleOne] [positiveZero, Finite True 0] = positiveZero \<and>
   length [1, 0 :: real] = length [3, 4 :: real] \<and> vnorm [1, 0] \<noteq> 0 \<and> vnorm [3, 4] \<noteq> 0 \<and>
   - 1 \<le> dot [1, 0] [3, 4] / (vnorm [1, 0] * vnorm [3, 4]) \<and>
   dot [1, 0] [3, 4] / (vnorm [1, 0] * vnorm [3, 4]) \<le> 1"
proof -
  have z: "\<forall>x \<in> set [positiveZero, Finite True 0]. isZero x"
    by (simp add: isZero_def positiveZero_def)
  have n: "isZero (fsum (map (\<lambda>x. fmul x x) [positiveZero, Finite True 0]))"
    by (simp add: fsum_def isZero_def positiveZero_def roundToDouble_zero signed_def)
  have v: "vnorm [1, 0] \<noteq> 0" "vnorm [3, 4] \<noteq> 0"
    by (simp_all add: vnorm_pair)
  have l: "length [1, 0 :: real] = length [3, 4 :: real]"
    by simp
  note t = cosine_similarity_double [of "[positiveZero, Finite True 0]" "[doubleOne, doubleOne]"
      "[1, 0]" "[3, 4]"]
  from t z
  have 1: "cosineSimilarity [positiveZero, Finite True 0] [doubleOne, doubleOne]
             = positiveZero"
    by blast
  from t l v
  have 3: "- 1 \<le> dot [1, 0] [3, 4] / (vnorm [1, 0] * vnorm [3, 4])"
           "dot [1, 0] [3, 4] / (vnorm [1, 0] * vnorm [3, 4]) \<le> 1"
    by blast+
  from cosine_similarity_double [of "[doubleOne, doubleOne]" "[positiveZero, Finite True 0]"
      "[1, 0]" "[3, 4]"] z
  have 2: "cosineSimilarity [doubleOne, doubleOne] [positiveZero, Finite True 0]
             = positiveZero"
    by blast
  from z n v 1 2 3 show ?thesis by (simp del: fmul.simps fsqrt.simps)
qed

lemma exact_ones: "dot [1, 1, 1] [1, 1, 1] / (vnorm [1, 1, 1] * vnorm [1, 1, 1]) = 1"
  by (simp add: dot_sum_list vnorm_sum_list)

text \<open>
  The vector \<open>[1, 1, 1]\<close> against itself: the three sums are 3, the root of 3 is rounded
  down, the magnitude is the double below 3, and the score is \<open>1 + 2^-52\<close>, above the exact
  quotient 1. The vector \<open>[2^600]\<close> against itself: the squares overflow to infinity, and the
  score is \<open>Infinity / Infinity\<close>, which is not a number.
\<close>

theorem cosine_similarity_exceeds_one:
  "dot [1, 1, 1] [1, 1, 1] / (vnorm [1, 1, 1] * vnorm [1, 1, 1]) = 1 \<and>
   cosineSimilarity [doubleOne, doubleOne, doubleOne] [doubleOne, doubleOne, doubleOne]
     = Finite False (4503599627370497 / 4503599627370496) \<and>
   (1 :: rat) < 4503599627370497 / 4503599627370496 \<and>
   cosineSimilarity [hugeDouble] [hugeDouble] = NaN"
proof (intro conjI)
  show "dot [1, 1, 1] [1, 1, 1] / (vnorm [1, 1, 1] * vnorm [1, 1, 1]) = 1"
    by (rule exact_ones)
  show "cosineSimilarity [doubleOne, doubleOne, doubleOne] [doubleOne, doubleOne, doubleOne]
     = Finite False (4503599627370497 / 4503599627370496)"
    by (rule ones_score)
  show "(1 :: rat) < 4503599627370497 / 4503599627370496"
    by simp
  show "cosineSimilarity [hugeDouble] [hugeDouble] = NaN"
    by (rule huge_score)
qed

section \<open>Properties of the chat route\<close>






















section \<open>Properties of the answer synthesis\<close>

lemma dropWhile_hd: "dropWhile P xs \<noteq> [] \<Longrightarrow> \<not> P (hd (dropWhile P xs))"
  by (metis hd_dropWhile)

lemma trim_cases:
  "trim s = [] \<or> (\<not> isWhitespace (hd (trim s)) \<and> \<not> isWhitespace (last (trim s)))"
proof (cases "trim s = []")
  case True
  then show ?thesis by simp
next
  case False
  define y where "y = dropWhile isWhitespace s"
  define z where "z = dropWhile isWhitespace (rev y)"
  have t: "trim s = rev z" by (simp add: trim_def y_def z_def)
  with False have z: "z \<noteq> []" by simp
  then have hz: "\<not> isWhitespace (hd z)"
    unfolding z_def by (rule dropWhile_hd)
  from z have y: "y \<noteq> []" by (auto simp: z_def)
  then have hy: "\<not> isWhitespace (hd y)"
    unfolding y_def by (rule dropWhile_hd)
  obtain p where p: "rev y = p @ z"
    unfolding z_def by (metis takeWhile_dropWhile_id)
  then have "y = rev z @ rev p" by (metis rev_append rev_rev_ident)
  with z have "hd (rev z) = hd y" by simp
  with hy hz z show ?thesis by (simp add: t last_rev)
qed

lemma trim_idem: "trim (trim s) = trim s"
proof (cases "trim s = []")
  case True
  then show ?thesis by (simp add: trim_def [of "[]"])
next
  case False
  with trim_cases [of s]
  have h: "\<not> isWhitespace (hd (trim s))" and l: "\<not> isWhitespace (last (trim s))" by auto
  from False h have 1: "dropWhile isWhitespace (trim s) = trim s"
    by (cases "trim s") auto
  from False obtain a tl where r: "rev (trim s) = a # tl"
    by (cases "rev (trim s)") auto
  then have "hd (rev (trim s)) = a" by simp
  then have "a = last (trim s)" by (simp add: hd_rev)
  with l have 2: "dropWhile isWhitespace (rev (trim s)) = rev (trim s)"
    unfolding r by simp
  show ?thesis
    unfolding trim_def [of "trim s"] 1 2 by simp
qed

lemma set_trim: "set (trim s) \<subseteq> set s"
proof -
  have "set (dropWhile P xs) \<subseteq> set xs" for P and xs :: string
    by (auto dest: set_dropWhileD)
  then show ?thesis unfolding trim_def
    by (metis (no_types, lifting) set_rev subset_trans)
qed

lemma splitRuns_no_sep:
  "\<forall>c \<in> set acc. \<not> sep c \<Longrightarrow> \<forall>p \<in> set (splitRuns sep acc s). \<forall>c \<in> set p. \<not> sep c"
proof (induction sep acc s rule: splitRuns.induct)
  case (1 sep acc)
  then show ?case by simp
next
  case (2 sep acc c cs)
  show ?case
  proof (cases "sep c")
    case True
    have "\<forall>p \<in> set (splitRuns sep [] (dropWhile sep cs)). \<forall>c \<in> set p. \<not> sep c"
      by (rule "2.IH"(1) [OF True]) simp
    with True "2.prems" show ?thesis by simp
  next
    case False
    with "2.prems" have "\<forall>x \<in> set (acc @ [c]). \<not> sep x" by simp
    then have "\<forall>p \<in> set (splitRuns sep (acc @ [c]) cs). \<forall>c \<in> set p. \<not> sep c"
      by (rule "2.IH"(2) [OF False])
    with False show ?thesis by simp
  qed
qed

lemma filter_dropWhile_not: "filter (\<lambda>c. \<not> P c) (dropWhile P xs) = filter (\<lambda>c. \<not> P c) xs"
  by (induction xs) auto

lemma concat_splitRuns:
  "concat (splitRuns sep acc s) = acc @ filter (\<lambda>c. \<not> sep c) s"
proof (induction sep acc s rule: splitRuns.induct)
  case (1 sep acc)
  then show ?case by simp
next
  case (2 sep acc c cs)
  show ?case
  proof (cases "sep c")
    case True
    with "2.IH"(1) [OF True] show ?thesis by (simp add: filter_dropWhile_not)
  next
    case False
    with "2.IH"(2) [OF False] show ?thesis by simp
  qed
qed

text \<open>
  Claim C7, as amended. For every chat request that retrieves chunks, the candidate
  sentences for the answer are obtained from the texts of the retrieved chunks, joined by
  single spaces, by splitting at every maximal run of the terminal marks \<open>.\<close>, \<open>!\<close> and \<open>?\<close>
  (the marks are removed, whether or not white space follows them, and nothing else is),
  trimming every piece, discarding every piece of 20 characters or fewer (pieces of 21 or
  more characters are kept), and keeping the first 15 of the remaining pieces.
\<close>

theorem candidate_sentences:
  "let combinedContext = join '' '' (map cc_text contextChunks);
       pieces = splitRuns isTerminal [] combinedContext;
       sentences = candidateSentences contextChunks
   in sentences = take 15 (filter (\<lambda>s. 20 < length s) (map trim pieces)) \<and>
      concat pieces = filter (\<lambda>c. \<not> isTerminal c) combinedContext \<and>
      length sentences \<le> 15 \<and>
      (\<forall>s \<in> set sentences. 20 < length s \<and> trim s = s \<and> (\<forall>c \<in> set s. \<not> isTerminal c))"
proof -
  define combinedContext where "combinedContext = join '' '' (map cc_text contextChunks)"
  define pieces where "pieces = splitRuns isTerminal [] combinedContext"
  define sentences where "sentences = candidateSentences contextChunks"
  have eq: "sentences = take 15 (filter (\<lambda>s. 20 < length s) (map trim pieces))"
    by (simp add: sentences_def candidateSentences_def pieces_def combinedContext_def)
  have cat: "concat pieces = filter (\<lambda>c. \<not> isTerminal c) combinedContext"
    by (simp add: pieces_def concat_splitRuns)
  have len: "length sentences \<le> 15"
    by (simp add: eq)
  have each: "20 < length s \<and> trim s = s \<and> (\<forall>c \<in> set s. \<not> isTerminal c)"
    if "s \<in> set sentences" for s
  proof -
    from that have "s \<in> set (filter (\<lambda>s. 20 < length s) (map trim pieces))"
      unfolding eq by (rule in_set_takeD)
    then obtain p where p: "p \<in> set pieces" and s: "s = trim p" and l: "20 < length s"
      by auto
    from p have "\<forall>c \<in> set p. \<not> isTerminal c"
      using splitRuns_no_sep [of "[]" isTerminal combinedContext] by (simp add: pieces_def)
    with set_trim [of p] have "\<forall>c \<in> set s. \<not> isTerminal c"
      by (auto simp: s)
    with l show ?thesis by (simp add: s trim_idem)
  qed
  from eq cat len each show ?thesis
    unfolding Let_def combinedContext_def pieces_def sentences_def by blast
qed

text \<open>A text of two sentences, of which one piece is long enough to be kept.\<close>

theorem candidate_sentences_witness:
  "candidateSentences (exampleContext ''Version 2.5 of the tool is ready now. Short one.'')
     = [''5 of the tool is ready now''] \<and>
   list_all (\<lambda>s. 20 < length s \<and> trim s = s \<and> list_all (\<lambda>c. \<not> isTerminal c) s)
     (candidateSentences (exampleContext ''Version 2.5 of the tool is ready now. Short one.''))"
proof -
  have e: "candidateSentences (exampleContext ''Version 2.5 of the tool is ready now. Short one.'')
     = [''5 of the tool is ready now'']"
    by (simp add: candidateSentences_def exampleContext_def isTerminal_def trim_def
        isWhitespace_def)
  from candidate_sentences
    [of "exampleContext ''Version 2.5 of the tool is ready now. Short one.''"]
  have "\<forall>s \<in> set (candidateSentences
                      (exampleContext ''Version 2.5 of the tool is ready now. Short one.'')).
          20 < length s \<and> trim s = s \<and> (\<forall>c \<in> set s. \<not> isTerminal c)"
    unfolding Let_def by blast
  then have "list_all (\<lambda>s. 20 < length s \<and> trim s = s \<and> list_all (\<lambda>c. \<not> isTerminal c) s)
     (candidateSentences (exampleContext ''Version 2.5 of the tool is ready now. Short one.''))"
    unfolding list_all_iff .
  with e show ?thesis by (rule conjI)
qed

text \<open>
  A decimal point splits a sentence for the answer but not for the chunker, and a sentence
  of exactly 20 characters is discarded.
\<close>

theorem candidate_sentences_differ:
  "candidateSentences (exampleContext ''Version 2.5 of the tool is ready now.'')
     = [''5 of the tool is ready now''] \<and>
   candidateSentences_spec (exampleContext ''Version 2.5 of the tool is ready now.'')
     = [''Version 2.5 of the tool is ready now.''] \<and>
   length ''Twenty characters ok'' = 20 \<and>
   candidateSentences (exampleContext ''Twenty characters ok'') = [] \<and>
   candidateSentences_spec (exampleContext ''Twenty characters ok'') = [''Twenty characters ok'']"
proof (intro conjI)
  show "candidateSentences (exampleContext ''Version 2.5 of the tool is ready now.'')
          = [''5 of the tool is ready now'']"
    by (simp add: candidateSentences_def exampleContext_def isTerminal_def trim_def
        isWhitespace_def)
  show "candidateSentences_spec (exampleContext ''Version 2.5 of the tool is ready now.'')
          = [''Version 2.5 of the tool is ready now.'']"
    by (simp add: candidateSentences_spec_def splitIntoSentences_def exampleContext_def
        isTerminal_def trim_def isWhitespace_def)
  show "length ''Twenty characters ok'' = 20"
    by simp
  show "candidateSentences (exampleContext ''Twenty characters ok'') = []"
    by (simp add: candidateSentences_def exampleContext_def isTerminal_def trim_def
        isWhitespace_def)
  show "candidateSentences_spec (exampleContext ''Twenty characters ok'')
          = [''Twenty characters ok'']"
    by (simp add: candidateSentences_spec_def splitIntoSentences_def exampleContext_def
        isTerminal_def trim_def isWhitespace_def)
qed

section \<open>Overlap between consecutive chunks\<close>

lemma estimateTokens_nonneg: "0 \<le> estimateTokens s"
  by (simp add: estimateTokens_div)

lemma overlapLoop_spec:
  assumes "overlapLoop ot rs acc cnt = (ov, c)"
  shows "\<exists>k \<le> length rs. ov = rev (take k rs) @ acc \<and>
           c = cnt + sum_list (map estimateTokens (take k rs)) \<and>
           (cnt \<le> ot \<longrightarrow> c \<le> ot) \<and> (ot < cnt \<longrightarrow> k = 0) \<and>
           (k = 0 \<and> rs \<noteq> [] \<longrightarrow> ot < cnt + estimateTokens (hd rs))"
  using assms
proof (induction rs arbitrary: acc cnt)
  case Nil
  then show ?case by simp
next
  case (Cons r rs)
  show ?case
  proof (cases "cnt + estimateTokens r \<le> ot")
    case True
    with Cons.prems
    have "overlapLoop ot rs (r # acc) (cnt + estimateTokens r) = (ov, c)"
      by (simp add: Let_def)
    from Cons.IH [OF this] obtain k where k: "k \<le> length rs"
      and ov: "ov = rev (take k rs) @ r # acc"
      and c: "c = cnt + estimateTokens r + sum_list (map estimateTokens (take k rs))"
      and b: "cnt + estimateTokens r \<le> ot \<longrightarrow> c \<le> ot"
      by blast
    have "Suc k \<le> length (r # rs)" using k by simp
    moreover have "ov = rev (take (Suc k) (r # rs)) @ acc" using ov by simp
    moreover have "c = cnt + sum_list (map estimateTokens (take (Suc k) (r # rs)))"
      using c by simp
    moreover have "cnt \<le> ot \<longrightarrow> c \<le> ot" using b True by simp
    moreover have "\<not> ot < cnt" using True estimateTokens_nonneg [of r] by linarith
    ultimately show ?thesis by blast
  next
    case False
    with Cons.prems have "ov = acc" "c = cnt" by (simp_all add: Let_def)
    with False show ?thesis by (intro exI [of _ 0]) simp
  qed
qed

lemma overlap_of_chunk:
  assumes "overlapLoop ot (rev cur) [] 0 = (ov, c)" and "cur \<noteq> []"
  shows "suffix ov cur" and "c = sum_list (map estimateTokens ov)"
    and "c \<le> ot \<or> (ov = [] \<and> ot < estimateTokens (last cur))"
proof -
  from overlapLoop_spec [OF assms(1)] obtain k where k: "k \<le> length cur"
    and ov: "ov = rev (take k (rev cur))"
    and c: "c = sum_list (map estimateTokens (take k (rev cur)))"
    and b: "0 \<le> ot \<longrightarrow> c \<le> ot"
    and n: "ot < 0 \<longrightarrow> k = 0"
    and z: "k = 0 \<longrightarrow> ot < estimateTokens (hd (rev cur))"
    using assms(2) by auto
  have ov': "ov = drop (length cur - k) cur"
    unfolding ov by (simp add: rev_take)
  then show "suffix ov cur" by (simp add: suffix_drop)
  have "sum_list (map estimateTokens (rev (take k (rev cur))))
          = sum_list (map estimateTokens (take k (rev cur)))"
    by (simp add: rev_map [symmetric] del: rev_take)
  then show "c = sum_list (map estimateTokens ov)"
    unfolding ov c by simp
  show "c \<le> ot \<or> (ov = [] \<and> ot < estimateTokens (last cur))"
  proof (cases "0 \<le> ot")
    case True
    with b show ?thesis by simp
  next
    case False
    with n have "k = 0" by simp
    with z ov assms(2) show ?thesis by (simp add: hd_rev)
  qed
qed

lemma trim_nonempty_iff: "trim s \<noteq> [] \<longleftrightarrow> (\<exists>c \<in> set s. \<not> isWhitespace c)"
proof -
  have "trim s = [] \<longleftrightarrow> dropWhile isWhitespace (rev (dropWhile isWhitespace s)) = []"
    by (simp add: trim_def)
  also have "\<dots> \<longleftrightarrow> (\<forall>c \<in> set (dropWhile isWhitespace s). isWhitespace c)"
    unfolding dropWhile_eq_Nil_conv by simp
  also have "\<dots> \<longleftrightarrow> dropWhile isWhitespace s = []"
  proof
    assume a: "\<forall>c \<in> set (dropWhile isWhitespace s). isWhitespace c"
    show "dropWhile isWhitespace s = []"
    proof (rule ccontr)
      assume n: "dropWhile isWhitespace s \<noteq> []"
      then have "\<not> isWhitespace (hd (dropWhile isWhitespace s))"
        by (rule dropWhile_hd)
      moreover from n have "hd (dropWhile isWhitespace s) \<in> set (dropWhile isWhitespace s)"
        by (rule hd_in_set)
      ultimately show False using a by blast
    qed
  next
    assume d: "dropWhile isWhitespace s = []"
    show "\<forall>c \<in> set (dropWhile isWhitespace s). isWhitespace c"
      unfolding d by simp
  qed
  also have "\<dots> \<longleftrightarrow> (\<forall>c \<in> set s. isWhitespace c)"
    by (simp add: dropWhile_eq_Nil_conv)
  finally show ?thesis by blast
qed

lemma set_join: "x \<in> set xs \<Longrightarrow> set x \<subseteq> set (join sep xs)"
proof (induction sep xs rule: join.induct)
  case (1 sep)
  then show ?case by simp
next
  case (2 sep y)
  then show ?case by simp
next
  case (3 sep y z zs)
  show ?case
  proof (cases "x = y")
    case True
    then show ?thesis by auto
  next
    case False
    with "3.prems" have "x \<in> set (z # zs)" by simp
    from "3.IH" [OF this] show ?thesis by auto
  qed
qed

lemma nonblank_join:
  assumes "cur \<noteq> []" and "\<forall>s \<in> set cur. trim s \<noteq> []"
  shows "trim (join '' '' cur) \<noteq> []"
proof -
  from assms(1) obtain x where x: "x \<in> set cur" by (cases cur) auto
  with assms(2) obtain c where "c \<in> set x" "\<not> isWhitespace c"
    by (auto simp: trim_nonempty_iff)
  with set_join [OF x, of "'' ''"] show ?thesis
    by (auto simp: trim_nonempty_iff)
qed

lemma pushUnits_nonblank:
  "cur \<noteq> [] \<Longrightarrow> \<forall>s \<in> set cur. trim s \<noteq> [] \<Longrightarrow>
   pushUnits units carried cur = units @ [(carried, cur)]"
  using nonblank_join [of cur] by (simp add: pushUnits_def)

lemma overlapTrace_snoc:
  assumes "overlapTrace ot units"
    and "units \<noteq> [] \<Longrightarrow> overlapLink ot (snd (last units)) e"
  shows "overlapTrace ot (units @ [e])"
  unfolding overlapTrace_def
proof (intro allI impI)
  fix i assume i: "Suc i < length (units @ [e])"
  show "overlapLink ot (snd ((units @ [e]) ! i)) ((units @ [e]) ! Suc i)"
  proof (cases "Suc i < length units")
    case True
    with assms(1) show ?thesis by (simp add: overlapTrace_def nth_append)
  next
    case False
    with i have l: "Suc i = length units" by simp
    then have ne: "units \<noteq> []" by auto
    from l have "i = length units - 1" by simp
    then have "(units @ [e]) ! i = last units"
      using ne l by (simp add: nth_append last_conv_nth)
    moreover from l have "(units @ [e]) ! Suc i = e" by (simp add: nth_append)
    ultimately show ?thesis using assms(2) [OF ne] by simp
  qed
qed

lemma traceInv_push:
  assumes "traceInv ot units carried cur" and "cur \<noteq> []"
  shows "overlapTrace ot (pushUnits units carried cur)"
    and "pushUnits units carried cur = units @ [(carried, cur)]"
proof -
  from assms show p: "pushUnits units carried cur = units @ [(carried, cur)]"
    by (simp add: traceInv_def pushUnits_nonblank)
  from assms(1) show "overlapTrace ot (pushUnits units carried cur)"
    unfolding p by (intro overlapTrace_snoc) (simp_all add: traceInv_def)
qed

lemma chunkLoopUnits_inv:
  assumes "traceInv ot units carried cur" and "\<forall>s \<in> set ss. trim s \<noteq> []"
    and "chunkLoopUnits mt ot ss (units, carried, cur, toks) = (units', carried', cur', toks')"
  shows "traceInv ot units' carried' cur'"
  using assms
proof (induction ss arbitrary: units carried cur toks)
  case Nil
  then show ?case by simp
next
  case (Cons s ss)
  from Cons.prems(2) have s: "trim s \<noteq> []" and ss: "\<forall>s \<in> set ss. trim s \<noteq> []"
    by simp_all
  show ?case
  proof (cases "toks + estimateTokens s > mt \<and> length cur > 0")
    case True
    then have ne: "cur \<noteq> []" by simp
    obtain ov ovc where o: "overlapLoop ot (rev cur) [] 0 = (ov, ovc)"
      by (cases "overlapLoop ot (rev cur) [] 0")
    from Cons.prems(3) True o
    have run: "chunkLoopUnits mt ot ss
                 (pushUnits units carried cur, ov, ov @ [s], ovc + estimateTokens s)
               = (units', carried', cur', toks')"
      by (simp add: Let_def)
    note ovp = overlap_of_chunk [OF o ne]
    have tr: "overlapTrace ot (pushUnits units carried cur)"
      and pu: "pushUnits units carried cur = units @ [(carried, cur)]"
      using traceInv_push [OF Cons.prems(1) ne] by simp_all
    have "set ov \<subseteq> set cur" using ovp(1) by (rule set_mono_suffix)
    with Cons.prems(1) s have nb: "\<forall>x \<in> set (ov @ [s]). trim x \<noteq> []"
      by (auto simp: traceInv_def)
    have "overlapLink ot cur (ov, ov @ [s])"
      using ovp by (simp add: overlapLink_def strict_prefix_def)
    with tr nb have "traceInv ot (pushUnits units carried cur) ov (ov @ [s])"
      by (simp add: traceInv_def pu)
    from Cons.IH [OF this ss run] show ?thesis .
  next
    case False
    with Cons.prems(3)
    have run: "chunkLoopUnits mt ot ss (units, carried, cur @ [s], toks + estimateTokens s)
               = (units', carried', cur', toks')"
      by (auto simp: Let_def)
    have "traceInv ot units carried (cur @ [s])"
      using Cons.prems(1) s
      by (auto simp: traceInv_def overlapLink_def strict_prefix_def)
    from Cons.IH [OF this ss run] show ?thesis .
  qed
qed

lemma splitIntoSentences_nonblank: "\<forall>s \<in> set (splitIntoSentences t). trim s \<noteq> []"
  by (simp add: splitIntoSentences_def)

lemma chunkUnits_trace: "overlapTrace ot (chunkUnits t mt ot)"
proof -
  obtain units carried cur toks
    where run: "chunkLoopUnits mt ot (splitIntoSentences t) ([], [], [], 0)
                  = (units, carried, cur, toks)"
    by (cases "chunkLoopUnits mt ot (splitIntoSentences t) ([], [], [], 0)") auto
  have "traceInv ot [] [] []"
    by (simp add: traceInv_def overlapTrace_def)
  from chunkLoopUnits_inv [OF this splitIntoSentences_nonblank run]
  have inv: "traceInv ot units carried cur" .
  show ?thesis
  proof (cases "cur = []")
    case True
    with inv show ?thesis by (simp add: chunkUnits_def run traceInv_def)
  next
    case False
    with traceInv_push(1) [OF inv False] show ?thesis by (simp add: chunkUnits_def run)
  qed
qed

lemma length_chunksOfUnits: "length (chunksOfUnits units) = length units"
  by (simp add: chunksOfUnits_def)

lemma chunksOfUnits_snoc:
  "chunksOfUnits (units @ [e]) = chunksOfUnits units @ [chunkOfUnits (length units) (snd e)]"
  by (simp add: chunksOfUnits_def)

lemma pushChunk_units:
  "toks = sum_list (map estimateTokens cur) \<Longrightarrow>
   pushChunk (chunksOfUnits units) cur toks = chunksOfUnits (pushUnits units carried cur)"
  by (simp add: pushChunk_def pushUnits_def Let_def chunksOfUnits_snoc chunkOfUnits_def
      length_chunksOfUnits)

lemma chunkLoop_units:
  assumes "toks = sum_list (map estimateTokens cur)"
    and "chunkLoopUnits mt ot ss (units, carried, cur, toks) = (units', carried', cur', toks')"
  shows "chunkLoop mt ot ss (chunksOfUnits units, cur, toks)
           = (chunksOfUnits units', cur', toks') \<and>
         toks' = sum_list (map estimateTokens cur')"
  using assms
proof (induction ss arbitrary: units carried cur toks)
  case Nil
  then show ?case by auto
next
  case (Cons s ss)
  show ?case
  proof (cases "toks + estimateTokens s > mt \<and> length cur > 0")
    case True
    then have ne: "cur \<noteq> []" by simp
    obtain ov ovc where o: "overlapLoop ot (rev cur) [] 0 = (ov, ovc)"
      by (cases "overlapLoop ot (rev cur) [] 0")
    from Cons.prems(2) True o
    have run: "chunkLoopUnits mt ot ss
                 (pushUnits units carried cur, ov, ov @ [s], ovc + estimateTokens s)
               = (units', carried', cur', toks')"
      by (simp add: Let_def)
    have t: "ovc + estimateTokens s = sum_list (map estimateTokens (ov @ [s]))"
      using overlap_of_chunk(2) [OF o ne] by simp
    have step: "chunkLoop mt ot (s # ss) (chunksOfUnits units, cur, toks)
            = chunkLoop mt ot ss (chunksOfUnits (pushUnits units carried cur), ov @ [s],
                ovc + estimateTokens s)"
      using True o pushChunk_units [OF Cons.prems(1), of units carried]
      by (simp add: Let_def)
    from Cons.IH [OF t run] show ?thesis
      unfolding step .
  next
    case False
    with Cons.prems(2)
    have run: "chunkLoopUnits mt ot ss (units, carried, cur @ [s], toks + estimateTokens s)
               = (units', carried', cur', toks')"
      by (auto simp: Let_def)
    have t: "toks + estimateTokens s = sum_list (map estimateTokens (cur @ [s]))"
      using Cons.prems(1) by simp
    have step: "chunkLoop mt ot (s # ss) (chunksOfUnits units, cur, toks)
            = chunkLoop mt ot ss (chunksOfUnits units, cur @ [s], toks + estimateTokens s)"
      using False by (auto simp: Let_def)
    from Cons.IH [OF t run] show ?thesis
      unfolding step .
  qed
qed

lemma chunkText_units: "chunkText t mt ot = chunksOfUnits (chunkUnits t mt ot)"
proof -
  obtain units carried cur toks
    where run: "chunkLoopUnits mt ot (splitIntoSentences t) ([], [], [], 0)
                  = (units, carried, cur, toks)"
    by (cases "chunkLoopUnits mt ot (splitIntoSentences t) ([], [], [], 0)") auto
  have e: "chunksOfUnits [] = []" by (simp add: chunksOfUnits_def)
  from chunkLoop_units [OF _ run]
  have loop: "chunkLoop mt ot (splitIntoSentences t) ([], [], 0)
                = (chunksOfUnits units, cur, toks)"
    and toks: "toks = sum_list (map estimateTokens cur)"
    by (simp_all add: e)
  show ?thesis
    using pushChunk_units [OF toks, of units carried]
    by (simp add: chunkText_def chunkUnits_def loop run)
qed

text \<open>
  Claim C6. For every input text and all \<open>maxTokens\<close> and \<open>overlapTokens\<close>, the chunks of
  \<open>chunkText\<close> are those of the recorded sentence units, and for every pair of consecutive
  chunks the sentence units carried over from the earlier chunk are whole units at its
  end, stand at the start of the later chunk, and their cumulative estimated token count
  does not exceed \<open>overlapTokens\<close>; the only exception is that a single unit, the last of the
  earlier chunk, alone exceeds \<open>overlapTokens\<close>, and then no unit is carried over.
\<close>

theorem overlap_bound:
  "let units = chunkUnits text maxTokens overlapTokens
   in chunkText text maxTokens overlapTokens = chunksOfUnits units \<and>
      (\<forall>i. Suc i < length units \<longrightarrow>
         (let earlier = snd (units ! i);
              carried = fst (units ! Suc i);
              later = snd (units ! Suc i)
          in suffix carried earlier \<and> strict_prefix carried later \<and>
             (sum_list (map estimateTokens carried) \<le> overlapTokens \<or>
              (carried = [] \<and> overlapTokens < estimateTokens (last earlier)))))"
  using chunkUnits_trace [of overlapTokens "text" maxTokens]
    chunkText_units [of "text" maxTokens overlapTokens]
  by (simp add: Let_def overlapTrace_def overlapLink_def)

lemma example_chunkUnits:
  "chunkUnits ''A b. C d. E f.'' 3 2
     = [([], [''A b.'']), ([''A b.''], [''A b.'', ''C d.'']), ([''C d.''], [''C d.'', ''E f.''])]"
  by (simp add: chunkUnits_def splitIntoSentences_def pushUnits_def estimateTokens_div
      isTerminal_def isWhitespace_def trim_def)

text \<open>
  Three sentences of 2 tokens each with \<open>maxTokens = 3\<close> and \<open>overlapTokens = 2\<close>: every chunk
  after the first starts with the last sentence of the chunk before it.
\<close>

theorem overlap_bound_witness:
  "Suc 1 < length (chunkUnits ''A b. C d. E f.'' 3 2) \<and>
   fst (chunkUnits ''A b. C d. E f.'' 3 2 ! Suc 1) = [''C d.''] \<and>
   suffix [''C d.''] (snd (chunkUnits ''A b. C d. E f.'' 3 2 ! 1)) \<and>
   strict_prefix [''C d.''] (snd (chunkUnits ''A b. C d. E f.'' 3 2 ! Suc 1)) \<and>
   sum_list (map estimateTokens [''C d.'']) \<le> 2 \<and>
   map ctext (chunkText ''A b. C d. E f.'' 3 2) = [''A b.'', ''A b. C d.'', ''C d. E f.'']"
proof -
  have l: "Suc 1 < length (chunkUnits ''A b. C d. E f.'' 3 2)"
    by (simp add: example_chunkUnits)
  have c: "fst (chunkUnits ''A b. C d. E f.'' 3 2 ! Suc 1) = [''C d.'']"
    by (simp add: example_chunkUnits)
  have e: "estimateTokens ''C d.'' = 2"
    by (simp add: estimateTokens_div isWhitespace_def)
  from overlap_bound [of "''A b. C d. E f.''" 3 2]
  have t: "chunkText ''A b. C d. E f.'' 3 2 = chunksOfUnits (chunkUnits ''A b. C d. E f.'' 3 2)"
    and b: "suffix (fst (chunkUnits ''A b. C d. E f.'' 3 2 ! Suc 1))
              (snd (chunkUnits ''A b. C d. E f.'' 3 2 ! 1)) \<and>
            strict_prefix (fst (chunkUnits ''A b. C d. E f.'' 3 2 ! Suc 1))
              (snd (chunkUnits ''A b. C d. E f.'' 3 2 ! Suc 1)) \<and>
            (sum_list (map estimateTokens (fst (chunkUnits ''A b. C d. E f.'' 3 2 ! Suc 1))) \<le> 2 \<or>
             (fst (chunkUnits ''A b. C d. E f.'' 3 2 ! Suc 1) = [] \<and>
              2 < estimateTokens (last (snd (chunkUnits ''A b. C d. E f.'' 3 2 ! 1)))))"
    using l unfolding Let_def by blast+
  have m: "map ctext (chunkText ''A b. C d. E f.'' 3 2) = [''A b.'', ''A b. C d.'', ''C d. E f.'']"
    unfolding t example_chunkUnits
    by (simp add: chunksOfUnits_def chunkOfUnits_def trim_def isWhitespace_def)
  from b have "suffix [''C d.''] (snd (chunkUnits ''A b. C d. E f.'' 3 2 ! 1))"
    and "strict_prefix [''C d.''] (snd (chunkUnits ''A b. C d. E f.'' 3 2 ! Suc 1))"
    unfolding c by blast+
  moreover have "sum_list (map estimateTokens [''C d.'']) \<le> 2"
    using e by simp
  ultimately show ?thesis using l c m by blast
qed

end
